theory Spec2Isabelle
  imports Complex_Main "HOL-Library.AList"
begin

section \<open>Conventions of the embedding\<close>

text \<open>
  The development embeds the spatial-analysis core of the toolbox:
  \<^verbatim>\<open>core/geometry.py\<close>, \<open>core/spatial_ops.py\<close> and \<open>checks/road_qc/engine.py\<close>.

  \<^item> A Python \<open>float\<close> is a \<open>real\<close>: coordinates, areas, ratios and thresholds are the
    numbers they denote, without rounding, infinities or NaN. \<open>x // c\<close> followed by
    \<open>int(...)\<close> is \<open>\<lfloor>x / c\<rfloor>\<close>, and raises \<open>ZeroDivisionError\<close> when \<open>c = 0\<close>. The
    dangle search is embedded a second time with the float operations as parameters
    (\<open>find_dangles_fl\<close>), for the statements that depend on rounding and overflow.
  \<^item> A Python \<open>dict\<close> that is iterated is an association list in insertion order with
    pairwise different keys; \<open>d[k] = v\<close> is \<open>AList.update\<close>, \<open>d.get(k)\<close> is \<open>map_of\<close>,
    \<open>d[k]\<close> is \<open>map_of\<close> with \<open>KeyError\<close> for a missing key. A dict that is only looked
    up is a map.
  \<^item> An exception is a value \<open>Inl e\<close> of \<open>py_error + 'a\<close>; a \<open>for\<close> loop whose body may
    raise is \<open>for_each\<close>.
  \<^item> The geometry provider (arcpy) is outside the repository. A geometry object is a
    record of the attributes the code reads; the provider's operations \<open>intersect\<close> and
    \<open>buffer\<close> are parameters returning \<open>None\<close> where the provider returns \<open>None\<close> or
    raises (every call sits in \<open>try: ... except Exception: return None\<close>).
\<close>

datatype py_error = ZeroDivisionError | KeyError | OverflowError | ValueError

fun for_each :: "('a \<Rightarrow> 's \<Rightarrow> py_error + 's) \<Rightarrow> 'a list \<Rightarrow> 's \<Rightarrow> py_error + 's" where
  "for_each body [] st = Inr st"
| "for_each body (x # xs) st =
     (case body x st of Inl e \<Rightarrow> Inl e | Inr st' \<Rightarrow> for_each body xs st')"

section \<open>Geometry helpers (core/geometry.py)\<close>

text \<open>
  \<open>geometry.type.lower()\<close> is one of arcpy's geometry type names; \<open>'polygon' in t\<close> holds
  for \<open>polygon\<close> only and \<open>'line' in t\<close> for \<open>polyline\<close> only. \<open>gextent = None\<close> stands
  for an \<open>extent\<close> attribute whose access raises.
\<close>

datatype geom_type = Polygon | Polyline | Point | Multipoint | Multipatch

type_synonym extent = "real \<times> real \<times> real \<times> real"

record geometry =
  gtype :: geom_type
  pointCount :: nat
  area :: real
  glength :: real
  gextent :: "extent option"

definition is_geometry_null :: "geometry option \<Rightarrow> bool" where
  "is_geometry_null geom =
     (case geom of
        None \<Rightarrow> True
      | Some g \<Rightarrow>
          if pointCount g = 0 then True
          else if gtype g = Polygon \<and> area g = 0 then True
          else if gtype g = Polyline \<and> glength g = 0 then True
          else False)"

definition get_geometry_area :: "geometry option \<Rightarrow> real" where
  "get_geometry_area geom =
     (if is_geometry_null geom then 0
      else case geom of None \<Rightarrow> 0 | Some g \<Rightarrow> (if area g \<noteq> 0 then area g else 0))"

definition get_intersection_geometry ::
  "(geometry \<Rightarrow> geometry \<Rightarrow> nat \<Rightarrow> geometry option) \<Rightarrow>
   geometry option \<Rightarrow> geometry option \<Rightarrow> nat \<Rightarrow> geometry option" where
  "get_intersection_geometry intersect geom_a geom_b dimension =
     (case (geom_a, geom_b) of
        (Some a, Some b) \<Rightarrow>
          if is_geometry_null geom_a \<or> is_geometry_null geom_b then None
          else (case intersect a b dimension of
                  None \<Rightarrow> None
                | Some intersection \<Rightarrow>
                    if is_geometry_null (Some intersection) then None
                    else if get_geometry_area (Some intersection) \<le> 0 then None
                    else Some intersection)
      | _ \<Rightarrow> None)"

definition get_geometry_extent :: "geometry option \<Rightarrow> extent option" where
  "get_geometry_extent geom =
     (if is_geometry_null geom then None
      else case geom of None \<Rightarrow> None | Some g \<Rightarrow> gextent g)"

definition validate_polygon_geometry :: "geometry option \<Rightarrow> bool" where
  "validate_polygon_geometry geom =
     (if is_geometry_null geom then False
      else case geom of
             None \<Rightarrow> False
           | Some g \<Rightarrow>
               if gtype g \<noteq> Polygon then False
               else if get_geometry_area geom \<le> 0 then False
               else True)"

definition buffer_geometry ::
  "(geometry \<Rightarrow> real \<Rightarrow> geometry option) \<Rightarrow> geometry option \<Rightarrow> real \<Rightarrow> geometry option" where
  "buffer_geometry buffer geom distance =
     (if is_geometry_null geom then None
      else if distance \<le> 0 then geom
      else case geom of None \<Rightarrow> None | Some g \<Rightarrow> buffer g distance)"

section \<open>Overlap classification (core/spatial_ops.py)\<close>

definition extents_intersect :: "extent \<Rightarrow> extent \<Rightarrow> bool" where
  "extents_intersect extent_a extent_b =
     (case (extent_a, extent_b) of
        ((a0, a1, a2, a3), (b0, b1, b2, b3)) \<Rightarrow>
          \<not> (a2 < b0 \<or> a0 > b2 \<or> a3 < b1 \<or> a1 > b3))"

definition classify_overlap :: "real \<Rightarrow> real \<Rightarrow> real \<Rightarrow> string" where
  "classify_overlap overlap_ratio duplicate_threshold partial_threshold =
     (if overlap_ratio \<ge> duplicate_threshold then ''DUPLICATE''
      else if overlap_ratio \<ge> partial_threshold then ''PARTIAL''
      else ''SLIVER'')"


section \<open>Grid index (core/spatial_ops.py, class SpatialIndex)\<close>

record spatial_index =
  cell_size :: real
  grid :: "(int \<times> int) \<rightharpoonup> int list"
  geometries :: "int \<rightharpoonup> geometry option"
  extents :: "int \<rightharpoonup> extent"

definition SpatialIndex :: "real \<Rightarrow> spatial_index" where
  "SpatialIndex c =
     \<lparr>cell_size = c, grid = Map.empty, geometries = Map.empty, extents = Map.empty\<rparr>"

text \<open>
  The four floor divisions and the two nested \<open>range\<close> loops that \<open>insert\<close>,
  \<open>query_candidates\<close> and \<open>query_by_extent\<close> each spell out: the keys \<open>(col, row)\<close> in the
  order the loops visit them, or the \<open>ZeroDivisionError\<close> of \<open>xmin // self.cell_size\<close>.
\<close>

definition cell_keys :: "real \<Rightarrow> extent \<Rightarrow> py_error + (int \<times> int) list" where
  "cell_keys c ext =
     (case ext of (xmin, ymin, xmax, ymax) \<Rightarrow>
        if c = 0 then Inl ZeroDivisionError
        else
          let col_min = \<lfloor>xmin / c\<rfloor>; col_max = \<lfloor>xmax / c\<rfloor>;
              row_min = \<lfloor>ymin / c\<rfloor>; row_max = \<lfloor>ymax / c\<rfloor>
          in Inr (List.product [col_min..col_max] [row_min..row_max]))"

definition grid_append :: "('k \<rightharpoonup> 'v list) \<Rightarrow> 'k \<Rightarrow> 'v \<Rightarrow> ('k \<rightharpoonup> 'v list)" where
  "grid_append g key v = g(key \<mapsto> (case g key of None \<Rightarrow> [] | Some l \<Rightarrow> l) @ [v])"

definition insert_index :: "spatial_index \<Rightarrow> int \<Rightarrow> geometry option \<Rightarrow> py_error + spatial_index" where
  "insert_index s fid geom =
     (if is_geometry_null geom then Inr s
      else case get_geometry_extent geom of
             None \<Rightarrow> Inr s
           | Some ext \<Rightarrow>
               (case cell_keys (cell_size s) ext of
                  Inl e \<Rightarrow> Inl e
                | Inr keys \<Rightarrow>
                    Inr (s\<lparr>geometries := (geometries s)(fid \<mapsto> geom),
                           extents := (extents s)(fid \<mapsto> ext),
                           grid := fold (\<lambda>key g. grid_append g key fid) keys (grid s)\<rparr>)))"

text \<open>
  \<open>candidates\<close> is a Python \<open>set\<close>; \<open>list(candidates)\<close> enumerates it in an order the
  language does not specify. The parameter \<open>set_iter\<close> is that enumeration, applied to the
  sequence of ids put into the set (after \<open>discard(fid)\<close>); the theorems assume of it only
  that it returns the elements it was given.
\<close>

definition query_candidates ::
  "(int list \<Rightarrow> int list) \<Rightarrow> spatial_index \<Rightarrow> int \<Rightarrow> py_error + int list" where
  "query_candidates set_iter s fid =
     (case extents s fid of
        None \<Rightarrow> Inr []
      | Some ext \<Rightarrow>
          (case cell_keys (cell_size s) ext of
             Inl e \<Rightarrow> Inl e
           | Inr keys \<Rightarrow>
               Inr (set_iter (removeAll fid
                      (concat (map (\<lambda>key. case grid s key of None \<Rightarrow> [] | Some l \<Rightarrow> l) keys))))))"

section \<open>Pairwise overlaps (core/spatial_ops.py, find\_pairwise\_overlaps)\<close>

record overlap_result =
  fid_a :: int
  fid_b :: int
  overlap_geometry :: geometry
  overlap_area :: real
  overlap_ratio :: real
  overlap_type :: string

definition collect_extents ::
  "(int \<times> geometry option) list \<Rightarrow> (int \<times> extent) list \<times> real \<times> real" where
  "collect_extents features =
     fold (\<lambda>(fid, geom) (exts, total_width, total_height).
             case get_geometry_extent geom of
               None \<Rightarrow> (exts, total_width, total_height)
             | Some (e0, e1, e2, e3) \<Rightarrow>
                 (AList.update fid (e0, e1, e2, e3) exts,
                  total_width + (e2 - e0), total_height + (e3 - e1)))
          features ([], 0, 0)"

text \<open>
  The body of the inner loop, for the candidate \<open>fid_b\<close> of \<open>fid_a\<close>. The state is
  \<open>(processed_pairs, results yielded so far)\<close>.
\<close>

definition pair_step ::
  "(geometry \<Rightarrow> geometry \<Rightarrow> nat \<Rightarrow> geometry option) \<Rightarrow>
   (int \<times> geometry option) list \<Rightarrow> (int \<times> extent) list \<Rightarrow> real \<Rightarrow> real \<Rightarrow> real \<Rightarrow>
   int \<Rightarrow> geometry option \<Rightarrow> real \<Rightarrow> extent \<Rightarrow> int \<Rightarrow>
   (int \<times> int) set \<times> overlap_result list \<Rightarrow> py_error + ((int \<times> int) set \<times> overlap_result list)" where
  "pair_step intersect features exts min_overlap_area duplicate_threshold partial_threshold
       fa geom_a area_a extent_a fb st =
     (case st of (processed_pairs, out) \<Rightarrow>
        let pair_key = (min fa fb, max fa fb) in
        if pair_key \<in> processed_pairs then Inr (processed_pairs, out)
        else
          let processed_pairs = insert pair_key processed_pairs in
          case map_of features fb of
            None \<Rightarrow> Inl KeyError
          | Some geom_b \<Rightarrow>
              if \<not> validate_polygon_geometry geom_b then Inr (processed_pairs, out)
              else
                let area_b = get_geometry_area geom_b in
                if area_b \<le> 0 then Inr (processed_pairs, out)
                else
                  case map_of exts fb of
                    None \<Rightarrow> Inr (processed_pairs, out)
                  | Some extent_b \<Rightarrow>
                      if \<not> extents_intersect extent_a extent_b then Inr (processed_pairs, out)
                      else
                        case get_intersection_geometry intersect geom_a geom_b 4 of
                          None \<Rightarrow> Inr (processed_pairs, out)
                        | Some intersection \<Rightarrow>
                            let ov_area = get_geometry_area (Some intersection) in
                            if ov_area < min_overlap_area then Inr (processed_pairs, out)
                            else
                              let min_area = min area_a area_b;
                                  ov_ratio = (if min_area > 0 then ov_area / min_area else 0);
                                  ov_type = classify_overlap ov_ratio
                                              duplicate_threshold partial_threshold
                              in Inr (processed_pairs,
                                      out @ [\<lparr>fid_a = fa, fid_b = fb,
                                               overlap_geometry = intersection,
                                               overlap_area = ov_area,
                                               overlap_ratio = ov_ratio,
                                               overlap_type = ov_type\<rparr>]))"

text \<open>The body of the outer loop, for the feature id \<open>fid_a\<close>.\<close>

definition feature_step ::
  "(int list \<Rightarrow> int list) \<Rightarrow> (geometry \<Rightarrow> geometry \<Rightarrow> nat \<Rightarrow> geometry option) \<Rightarrow>
   (int \<times> geometry option) list \<Rightarrow> (int \<times> extent) list \<Rightarrow> spatial_index \<Rightarrow>
   real \<Rightarrow> real \<Rightarrow> real \<Rightarrow> int \<Rightarrow>
   (int \<times> int) set \<times> overlap_result list \<Rightarrow> py_error + ((int \<times> int) set \<times> overlap_result list)" where
  "feature_step set_iter intersect features exts sindex min_overlap_area
       duplicate_threshold partial_threshold fa st =
     (case map_of features fa of
        None \<Rightarrow> Inl KeyError
      | Some geom_a \<Rightarrow>
          if \<not> validate_polygon_geometry geom_a then Inr st
          else
            let area_a = get_geometry_area geom_a in
            if area_a \<le> 0 then Inr st
            else
              case map_of exts fa of
                None \<Rightarrow> Inr st
              | Some extent_a \<Rightarrow>
                  (case query_candidates set_iter sindex fa of
                     Inl e \<Rightarrow> Inl e
                   | Inr candidates \<Rightarrow>
                       for_each (pair_step intersect features exts min_overlap_area
                                   duplicate_threshold partial_threshold
                                   fa geom_a area_a extent_a)
                         candidates st))"

text \<open>
  \<open>find_pairwise_overlaps\<close> is a generator; the model returns the list of the records it
  yields when it is drained, or the exception that ends it. The progress callback has no
  part in the result and is left out. \<open>BuildingOverlapChecker._find_overlaps\<close> in
  \<open>checks/building_overlap.py\<close> repeats the same statements with a progress tracker.
\<close>

definition find_pairwise_overlaps ::
  "(int list \<Rightarrow> int list) \<Rightarrow> (geometry \<Rightarrow> geometry \<Rightarrow> nat \<Rightarrow> geometry option) \<Rightarrow>
   (int \<times> geometry option) list \<Rightarrow> real \<Rightarrow> real \<Rightarrow> real \<Rightarrow> py_error + overlap_result list" where
  "find_pairwise_overlaps set_iter intersect features min_overlap_area
       duplicate_threshold partial_threshold =
     (if features = [] then Inr []
      else
        case collect_extents features of (exts, total_width, total_height) \<Rightarrow>
          if exts = [] then Inr []
          else
            let avg_size = max ((total_width + total_height) / (2 * real (length exts))) 10;
                cell_sz = avg_size * 2
            in case for_each (\<lambda>(fid, geom) s. insert_index s fid geom) features
                      (SpatialIndex cell_sz) of
                 Inl e \<Rightarrow> Inl e
               | Inr sindex \<Rightarrow>
                   (case for_each (feature_step set_iter intersect features exts sindex
                                     min_overlap_area duplicate_threshold partial_threshold)
                           (map fst features) ({}, []) of
                      Inl e \<Rightarrow> Inl e
                    | Inr (processed_pairs, out) \<Rightarrow> Inr out))"

text \<open>
  The same three functions with a log. \<open>evaluated\<close> is not a variable of the program: it
  records, in order, the pair \<open>(fid_a, fid_b)\<close> of every inner iteration that goes past
  the test \<open>pair_key in processed_pairs\<close>, at the statement
  \<open>processed_pairs.add(pair_key)\<close>; these are the iterations that evaluate a pair.
  Nothing reads the log, and dropping it gives back the functions above
  (\<open>find_pairwise_overlaps_log_erase\<close>).
\<close>

definition pair_step_log ::
  "(geometry \<Rightarrow> geometry \<Rightarrow> nat \<Rightarrow> geometry option) \<Rightarrow>
   (int \<times> geometry option) list \<Rightarrow> (int \<times> extent) list \<Rightarrow> real \<Rightarrow> real \<Rightarrow> real \<Rightarrow>
   int \<Rightarrow> geometry option \<Rightarrow> real \<Rightarrow> extent \<Rightarrow> int \<Rightarrow>
   (int \<times> int) set \<times> overlap_result list \<times> (int \<times> int) list \<Rightarrow>
   py_error + ((int \<times> int) set \<times> overlap_result list \<times> (int \<times> int) list)" where
  "pair_step_log intersect features exts min_overlap_area duplicate_threshold partial_threshold
       fa geom_a area_a extent_a fb st =
     (case st of (processed_pairs, out, evaluated) \<Rightarrow>
        let pair_key = (min fa fb, max fa fb) in
        if pair_key \<in> processed_pairs then Inr (processed_pairs, out, evaluated)
        else
          let processed_pairs = insert pair_key processed_pairs;
              evaluated = evaluated @ [(fa, fb)]
          in
          case map_of features fb of
            None \<Rightarrow> Inl KeyError
          | Some geom_b \<Rightarrow>
              if \<not> validate_polygon_geometry geom_b then Inr (processed_pairs, out, evaluated)
              else
                let area_b = get_geometry_area geom_b in
                if area_b \<le> 0 then Inr (processed_pairs, out, evaluated)
                else
                  case map_of exts fb of
                    None \<Rightarrow> Inr (processed_pairs, out, evaluated)
                  | Some extent_b \<Rightarrow>
                      if \<not> extents_intersect extent_a extent_b
                      then Inr (processed_pairs, out, evaluated)
                      else
                        case get_intersection_geometry intersect geom_a geom_b 4 of
                          None \<Rightarrow> Inr (processed_pairs, out, evaluated)
                        | Some intersection \<Rightarrow>
                            let ov_area = get_geometry_area (Some intersection) in
                            if ov_area < min_overlap_area
                            then Inr (processed_pairs, out, evaluated)
                            else
                              let min_area = min area_a area_b;
                                  ov_ratio = (if min_area > 0 then ov_area / min_area else 0);
                                  ov_type = classify_overlap ov_ratio
                                              duplicate_threshold partial_threshold
                              in Inr (processed_pairs,
                                      out @ [\<lparr>fid_a = fa, fid_b = fb,
                                               overlap_geometry = intersection,
                                               overlap_area = ov_area,
                                               overlap_ratio = ov_ratio,
                                               overlap_type = ov_type\<rparr>],
                                      evaluated))"

definition feature_step_log ::
  "(int list \<Rightarrow> int list) \<Rightarrow> (geometry \<Rightarrow> geometry \<Rightarrow> nat \<Rightarrow> geometry option) \<Rightarrow>
   (int \<times> geometry option) list \<Rightarrow> (int \<times> extent) list \<Rightarrow> spatial_index \<Rightarrow>
   real \<Rightarrow> real \<Rightarrow> real \<Rightarrow> int \<Rightarrow>
   (int \<times> int) set \<times> overlap_result list \<times> (int \<times> int) list \<Rightarrow>
   py_error + ((int \<times> int) set \<times> overlap_result list \<times> (int \<times> int) list)" where
  "feature_step_log set_iter intersect features exts sindex min_overlap_area
       duplicate_threshold partial_threshold fa st =
     (case map_of features fa of
        None \<Rightarrow> Inl KeyError
      | Some geom_a \<Rightarrow>
          if \<not> validate_polygon_geometry geom_a then Inr st
          else
            let area_a = get_geometry_area geom_a in
            if area_a \<le> 0 then Inr st
            else
              case map_of exts fa of
                None \<Rightarrow> Inr st
              | Some extent_a \<Rightarrow>
                  (case query_candidates set_iter sindex fa of
                     Inl e \<Rightarrow> Inl e
                   | Inr candidates \<Rightarrow>
                       for_each (pair_step_log intersect features exts min_overlap_area
                                   duplicate_threshold partial_threshold
                                   fa geom_a area_a extent_a)
                         candidates st))"

definition find_pairwise_overlaps_log ::
  "(int list \<Rightarrow> int list) \<Rightarrow> (geometry \<Rightarrow> geometry \<Rightarrow> nat \<Rightarrow> geometry option) \<Rightarrow>
   (int \<times> geometry option) list \<Rightarrow> real \<Rightarrow> real \<Rightarrow> real \<Rightarrow>
   py_error + (overlap_result list \<times> (int \<times> int) list)" where
  "find_pairwise_overlaps_log set_iter intersect features min_overlap_area
       duplicate_threshold partial_threshold =
     (if features = [] then Inr ([], [])
      else
        case collect_extents features of (exts, total_width, total_height) \<Rightarrow>
          if exts = [] then Inr ([], [])
          else
            let avg_size = max ((total_width + total_height) / (2 * real (length exts))) 10;
                cell_sz = avg_size * 2
            in case for_each (\<lambda>(fid, geom) s. insert_index s fid geom) features
                      (SpatialIndex cell_sz) of
                 Inl e \<Rightarrow> Inl e
               | Inr sindex \<Rightarrow>
                   (case for_each (feature_step_log set_iter intersect features exts sindex
                                     min_overlap_area duplicate_threshold partial_threshold)
                           (map fst features) ({}, [], []) of
                      Inl e \<Rightarrow> Inl e
                    | Inr (processed_pairs, out, evaluated) \<Rightarrow> Inr (out, evaluated)))"

section \<open>Road topology (checks/road\_qc/engine.py)\<close>

type_synonym point = "real \<times> real"
type_synonym endpoint = "int \<times> real \<times> real \<times> nat"
type_synonym ep_grid = "(int \<times> int) \<rightharpoonup> (int \<times> real \<times> real) list"

definition grid_key :: "real \<Rightarrow> real \<Rightarrow> real \<Rightarrow> py_error + (int \<times> int)" where
  "grid_key x y cell =
     (if cell = 0 then Inl ZeroDivisionError else Inr (\<lfloor>x / cell\<rfloor>, \<lfloor>y / cell\<rfloor>))"

subsection \<open>Dangles\<close>

text \<open>
  The functions of this subsection compute with real numbers: \<open>grid_key\<close> above is the
  floor of the exact quotient and cannot overflow, the test of \<open>scan_bucket\<close> is the
  exact squared distance, and \<open>1e-9\<close> is \<open>1 / 10 ^ 9\<close>.
\<close>

text \<open>Step 1 of \<open>find_dangles\<close>, for the point \<open>(x, y)\<close> at index \<open>i\<close> of road \<open>fid\<close>.\<close>

definition add_endpoint ::
  "real \<Rightarrow> int \<Rightarrow> nat \<times> point \<Rightarrow> ep_grid \<times> endpoint list \<Rightarrow> py_error + (ep_grid \<times> endpoint list)" where
  "add_endpoint cell fid ip st =
     (case ip of (i, (x, y)) \<Rightarrow>
      case st of (hgrid, all_eps) \<Rightarrow>
        (case grid_key x y cell of
           Inl e \<Rightarrow> Inl e
         | Inr k \<Rightarrow> Inr (grid_append hgrid k (fid, x, y), all_eps @ [(fid, x, y, i)])))"

text \<open>
  Step 2: the three nested loops with their \<open>break\<close>s. Each function returns the value
  of \<open>connected\<close> when its loop ends.
\<close>

fun scan_bucket :: "int \<Rightarrow> real \<Rightarrow> real \<Rightarrow> real \<Rightarrow> (int \<times> real \<times> real) list \<Rightarrow> bool" where
  "scan_bucket fid x y tol_sq [] = False"
| "scan_bucket fid x y tol_sq ((ofid, ox, oy) # bucket) =
     (if ofid = fid then scan_bucket fid x y tol_sq bucket
      else if (x - ox)\<^sup>2 + (y - oy)\<^sup>2 \<le> tol_sq then True
      else scan_bucket fid x y tol_sq bucket)"

fun scan_dy :: "ep_grid \<Rightarrow> int \<Rightarrow> real \<Rightarrow> real \<Rightarrow> real \<Rightarrow> int \<Rightarrow> int \<Rightarrow> int list \<Rightarrow> bool" where
  "scan_dy hgrid fid x y tol_sq cx gy [] = False"
| "scan_dy hgrid fid x y tol_sq cx gy (dy # dys) =
     (case hgrid (cx, gy + dy) of
        None \<Rightarrow> scan_dy hgrid fid x y tol_sq cx gy dys
      | Some bucket \<Rightarrow>
          if scan_bucket fid x y tol_sq bucket then True
          else scan_dy hgrid fid x y tol_sq cx gy dys)"

fun scan_dx :: "ep_grid \<Rightarrow> int \<Rightarrow> real \<Rightarrow> real \<Rightarrow> real \<Rightarrow> int \<Rightarrow> int \<Rightarrow> int list \<Rightarrow> bool" where
  "scan_dx hgrid fid x y tol_sq gx gy [] = False"
| "scan_dx hgrid fid x y tol_sq gx gy (dx # dxs) =
     (if scan_dy hgrid fid x y tol_sq (gx + dx) gy [-1, 0, 1] then True
      else scan_dx hgrid fid x y tol_sq gx gy dxs)"

definition check_endpoint ::
  "ep_grid \<Rightarrow> real \<Rightarrow> real \<Rightarrow> endpoint \<Rightarrow> endpoint list \<Rightarrow> py_error + endpoint list" where
  "check_endpoint hgrid cell tol_sq ep dangles =
     (case ep of (fid, x, y, ep_idx) \<Rightarrow>
        (case grid_key x y cell of
           Inl e \<Rightarrow> Inl e
         | Inr (gx, gy) \<Rightarrow>
             let connected = scan_dx hgrid fid x y tol_sq gx gy [-1, 0, 1]
             in if \<not> connected then Inr (dangles @ [(fid, x, y, ep_idx)]) else Inr dangles))"

definition find_dangles :: "(int \<times> point list) list \<Rightarrow> real \<Rightarrow> py_error + endpoint list" where
  "find_dangles endpoints_by_road tolerance =
     (let cell = max tolerance (1 / 10 ^ 9);
          tol_sq = tolerance * tolerance
      in case for_each (\<lambda>(fid, pts). for_each (add_endpoint cell fid) (enumerate 0 pts))
                endpoints_by_road (Map.empty, []) of
           Inl e \<Rightarrow> Inl e
         | Inr (hgrid, all_eps) \<Rightarrow> for_each (check_endpoint hgrid cell tol_sq) all_eps [])"

text \<open>
  The definition of a dangle in the words of the specification, without the hash: the
  endpoints, in the order of the roads and of each road's points, that have no endpoint
  of another road within squared distance \<open>tolerance\<^sup>2\<close>.
\<close>

definition all_endpoints :: "(int \<times> ('v \<times> 'v) list) list \<Rightarrow> (int \<times> 'v \<times> 'v \<times> nat) list" where
  "all_endpoints endpoints_by_road =
     concat (map (\<lambda>(fid, pts). map (\<lambda>(i, (x, y)). (fid, x, y, i)) (enumerate 0 pts))
               endpoints_by_road)"

definition near_other_road :: "endpoint list \<Rightarrow> real \<Rightarrow> endpoint \<Rightarrow> bool" where
  "near_other_road eps tolerance ep =
     (case ep of (fid, x, y, i) \<Rightarrow>
        list_ex (\<lambda>(ofid, ox, oy, oi). ofid \<noteq> fid \<and> (x - ox)\<^sup>2 + (y - oy)\<^sup>2 \<le> tolerance\<^sup>2) eps)"

definition naive_dangles :: "(int \<times> point list) list \<Rightarrow> real \<Rightarrow> endpoint list" where
  "naive_dangles endpoints_by_road tolerance =
     filter (\<lambda>ep. \<not> near_other_road (all_endpoints endpoints_by_road) tolerance ep)
       (all_endpoints endpoints_by_road)"

subsection \<open>Dangles, with the float arithmetic as a parameter\<close>

text \<open>
  \<open>find_dangles\<close> above reads the coordinates and the tolerance as real numbers and
  computes with them exactly. The interpreter computes with doubles: \<open>x - ox\<close>, the two
  squares, their sum and \<open>tolerance * tolerance\<close> are rounded, \<open>** 2\<close> raises
  \<open>OverflowError\<close> when the square leaves the range, \<open>int(x // cell)\<close> raises
  \<open>ZeroDivisionError\<close>, \<open>OverflowError\<close> or \<open>ValueError\<close>, and \<open>1e-9\<close> is the double
  nearest to \<open>10^-9\<close>. The functions below are the same program with every float
  operation it uses taken from a record: \<open>'v\<close> is the type of the float values, of which
  nothing is assumed, so that a value may also be an infinity or a NaN.

  \<^item> \<open>fl_sub\<close>, \<open>fl_add\<close>, \<open>fl_mul\<close> are \<open>-\<close>, \<open>+\<close>, \<open>*\<close>, which never raise;
  \<^item> \<open>fl_sqr a\<close> is \<open>a ** 2\<close>;
  \<^item> \<open>fl_le a b\<close> is \<open>a <= b\<close> and \<open>fl_gt a b\<close> is \<open>a > b\<close>;
  \<^item> \<open>fl_floordiv_int x c\<close> is \<open>int(x // c)\<close>;
  \<^item> \<open>fl_tiny\<close> is the literal \<open>1e-9\<close>.
\<close>

record 'v arith =
  fl_sub :: "'v \<Rightarrow> 'v \<Rightarrow> 'v"
  fl_add :: "'v \<Rightarrow> 'v \<Rightarrow> 'v"
  fl_mul :: "'v \<Rightarrow> 'v \<Rightarrow> 'v"
  fl_sqr :: "'v \<Rightarrow> py_error + 'v"
  fl_le :: "'v \<Rightarrow> 'v \<Rightarrow> bool"
  fl_gt :: "'v \<Rightarrow> 'v \<Rightarrow> bool"
  fl_floordiv_int :: "'v \<Rightarrow> 'v \<Rightarrow> py_error + int"
  fl_tiny :: 'v

text \<open>
  The builtin \<open>max(a, b)\<close> of two arguments: it keeps \<open>a\<close> unless \<open>b > a\<close>.
\<close>

definition py_max :: "'v arith \<Rightarrow> 'v \<Rightarrow> 'v \<Rightarrow> 'v" where
  "py_max A a b = (if fl_gt A b a then b else a)"

definition grid_key_fl :: "'v arith \<Rightarrow> 'v \<Rightarrow> 'v \<Rightarrow> 'v \<Rightarrow> py_error + (int \<times> int)" where
  "grid_key_fl A x y cell =
     (case fl_floordiv_int A x cell of
        Inl e \<Rightarrow> Inl e
      | Inr gx \<Rightarrow> (case fl_floordiv_int A y cell of Inl e \<Rightarrow> Inl e | Inr gy \<Rightarrow> Inr (gx, gy)))"

definition add_endpoint_fl ::
  "'v arith \<Rightarrow> 'v \<Rightarrow> int \<Rightarrow> nat \<times> 'v \<times> 'v \<Rightarrow>
   ((int \<times> int) \<rightharpoonup> (int \<times> 'v \<times> 'v) list) \<times> (int \<times> 'v \<times> 'v \<times> nat) list \<Rightarrow>
   py_error + (((int \<times> int) \<rightharpoonup> (int \<times> 'v \<times> 'v) list) \<times> (int \<times> 'v \<times> 'v \<times> nat) list)" where
  "add_endpoint_fl A cell fid ip st =
     (case ip of (i, (x, y)) \<Rightarrow>
      case st of (hgrid, all_eps) \<Rightarrow>
        (case grid_key_fl A x y cell of
           Inl e \<Rightarrow> Inl e
         | Inr k \<Rightarrow> Inr (grid_append hgrid k (fid, x, y), all_eps @ [(fid, x, y, i)])))"

text \<open>
  The test \<open>(x - ox) ** 2 + (y - oy) ** 2 <= tol_sq\<close>, its operands evaluated from left to
  right.
\<close>

definition dist_test :: "'v arith \<Rightarrow> 'v \<Rightarrow> 'v \<Rightarrow> 'v \<Rightarrow> 'v \<Rightarrow> 'v \<Rightarrow> py_error + bool" where
  "dist_test A x y ox oy tol_sq =
     (case fl_sqr A (fl_sub A x ox) of
        Inl e \<Rightarrow> Inl e
      | Inr sx \<Rightarrow>
          (case fl_sqr A (fl_sub A y oy) of
             Inl e \<Rightarrow> Inl e
           | Inr sy \<Rightarrow> Inr (fl_le A (fl_add A sx sy) tol_sq)))"

fun scan_bucket_fl ::
  "'v arith \<Rightarrow> int \<Rightarrow> 'v \<Rightarrow> 'v \<Rightarrow> 'v \<Rightarrow> (int \<times> 'v \<times> 'v) list \<Rightarrow> py_error + bool" where
  "scan_bucket_fl A fid x y tol_sq [] = Inr False"
| "scan_bucket_fl A fid x y tol_sq ((ofid, ox, oy) # bucket) =
     (if ofid = fid then scan_bucket_fl A fid x y tol_sq bucket
      else case dist_test A x y ox oy tol_sq of
             Inl e \<Rightarrow> Inl e
           | Inr close \<Rightarrow> if close then Inr True else scan_bucket_fl A fid x y tol_sq bucket)"

fun scan_dy_fl ::
  "'v arith \<Rightarrow> ((int \<times> int) \<rightharpoonup> (int \<times> 'v \<times> 'v) list) \<Rightarrow> int \<Rightarrow> 'v \<Rightarrow> 'v \<Rightarrow> 'v \<Rightarrow>
   int \<Rightarrow> int \<Rightarrow> int list \<Rightarrow> py_error + bool" where
  "scan_dy_fl A hgrid fid x y tol_sq cx gy [] = Inr False"
| "scan_dy_fl A hgrid fid x y tol_sq cx gy (dy # dys) =
     (case hgrid (cx, gy + dy) of
        None \<Rightarrow> scan_dy_fl A hgrid fid x y tol_sq cx gy dys
      | Some bucket \<Rightarrow>
          (case scan_bucket_fl A fid x y tol_sq bucket of
             Inl e \<Rightarrow> Inl e
           | Inr conn \<Rightarrow>
               if conn then Inr True else scan_dy_fl A hgrid fid x y tol_sq cx gy dys))"

fun scan_dx_fl ::
  "'v arith \<Rightarrow> ((int \<times> int) \<rightharpoonup> (int \<times> 'v \<times> 'v) list) \<Rightarrow> int \<Rightarrow> 'v \<Rightarrow> 'v \<Rightarrow> 'v \<Rightarrow>
   int \<Rightarrow> int \<Rightarrow> int list \<Rightarrow> py_error + bool" where
  "scan_dx_fl A hgrid fid x y tol_sq gx gy [] = Inr False"
| "scan_dx_fl A hgrid fid x y tol_sq gx gy (dx # dxs) =
     (case scan_dy_fl A hgrid fid x y tol_sq (gx + dx) gy [-1, 0, 1] of
        Inl e \<Rightarrow> Inl e
      | Inr conn \<Rightarrow>
          if conn then Inr True else scan_dx_fl A hgrid fid x y tol_sq gx gy dxs)"

definition check_endpoint_fl ::
  "'v arith \<Rightarrow> ((int \<times> int) \<rightharpoonup> (int \<times> 'v \<times> 'v) list) \<Rightarrow> 'v \<Rightarrow> 'v \<Rightarrow>
   int \<times> 'v \<times> 'v \<times> nat \<Rightarrow> (int \<times> 'v \<times> 'v \<times> nat) list \<Rightarrow>
   py_error + (int \<times> 'v \<times> 'v \<times> nat) list" where
  "check_endpoint_fl A hgrid cell tol_sq ep dangles =
     (case ep of (fid, x, y, ep_idx) \<Rightarrow>
        (case grid_key_fl A x y cell of
           Inl e \<Rightarrow> Inl e
         | Inr (gx, gy) \<Rightarrow>
             (case scan_dx_fl A hgrid fid x y tol_sq gx gy [-1, 0, 1] of
                Inl e \<Rightarrow> Inl e
              | Inr conn \<Rightarrow>
                  if \<not> conn then Inr (dangles @ [(fid, x, y, ep_idx)]) else Inr dangles)))"

definition find_dangles_fl ::
  "'v arith \<Rightarrow> (int \<times> ('v \<times> 'v) list) list \<Rightarrow> 'v \<Rightarrow> py_error + (int \<times> 'v \<times> 'v \<times> nat) list" where
  "find_dangles_fl A endpoints_by_road tolerance =
     (let cell = py_max A tolerance (fl_tiny A);
          tol_sq = fl_mul A tolerance tolerance
      in case for_each (\<lambda>(fid, pts). for_each (add_endpoint_fl A cell fid) (enumerate 0 pts))
                endpoints_by_road (Map.empty, []) of
           Inl e \<Rightarrow> Inl e
         | Inr (hgrid, all_eps) \<Rightarrow> for_each (check_endpoint_fl A hgrid cell tol_sq) all_eps [])"

text \<open>
  The definition of a dangle without the hash, in the arithmetic \<open>A\<close>: an endpoint is
  near another road when the test of the code, evaluated in \<open>A\<close>, passes against some
  endpoint of a different road.
\<close>

definition near_other_road_fl ::
  "'v arith \<Rightarrow> (int \<times> 'v \<times> 'v \<times> nat) list \<Rightarrow> 'v \<Rightarrow> int \<times> 'v \<times> 'v \<times> nat \<Rightarrow> bool" where
  "near_other_road_fl A eps tolerance ep =
     (case ep of (fid, x, y, i) \<Rightarrow>
        list_ex (\<lambda>(ofid, ox, oy, oi).
                   ofid \<noteq> fid \<and> dist_test A x y ox oy (fl_mul A tolerance tolerance) = Inr True)
          eps)"

definition naive_dangles_fl ::
  "'v arith \<Rightarrow> (int \<times> ('v \<times> 'v) list) list \<Rightarrow> 'v \<Rightarrow> (int \<times> 'v \<times> 'v \<times> nat) list" where
  "naive_dangles_fl A endpoints_by_road tolerance =
     filter (\<lambda>ep. \<not> near_other_road_fl A (all_endpoints endpoints_by_road) tolerance ep)
       (all_endpoints endpoints_by_road)"

text \<open>
  What the hash computes: the neighbours it looks at are those whose cell is at most one
  column and one row away from the cell of the endpoint.
\<close>

definition cells_adjacent :: "'v arith \<Rightarrow> 'v \<Rightarrow> 'v \<Rightarrow> 'v \<Rightarrow> 'v \<Rightarrow> 'v \<Rightarrow> bool" where
  "cells_adjacent A cell x y ox oy =
     (case grid_key_fl A x y cell of
        Inl e \<Rightarrow> False
      | Inr (gx, gy) \<Rightarrow>
          (case grid_key_fl A ox oy cell of
             Inl e \<Rightarrow> False
           | Inr (hx, hy) \<Rightarrow> \<bar>hx - gx\<bar> \<le> 1 \<and> \<bar>hy - gy\<bar> \<le> 1))"

definition near_in_cells_fl ::
  "'v arith \<Rightarrow> (int \<times> 'v \<times> 'v \<times> nat) list \<Rightarrow> 'v \<Rightarrow> int \<times> 'v \<times> 'v \<times> nat \<Rightarrow> bool" where
  "near_in_cells_fl A eps tolerance ep =
     (case ep of (fid, x, y, i) \<Rightarrow>
        list_ex (\<lambda>(ofid, ox, oy, oi).
                   ofid \<noteq> fid \<and> dist_test A x y ox oy (fl_mul A tolerance tolerance) = Inr True \<and>
                   cells_adjacent A (py_max A tolerance (fl_tiny A)) x y ox oy) eps)"

definition hashed_dangles_fl ::
  "'v arith \<Rightarrow> (int \<times> ('v \<times> 'v) list) list \<Rightarrow> 'v \<Rightarrow> (int \<times> 'v \<times> 'v \<times> nat) list" where
  "hashed_dangles_fl A endpoints_by_road tolerance =
     filter (\<lambda>ep. \<not> near_in_cells_fl A (all_endpoints endpoints_by_road) tolerance ep)
       (all_endpoints endpoints_by_road)"

text \<open>
  Two arithmetics. \<open>exact_arith\<close> computes with real numbers; with it the program is
  \<open>find_dangles\<close> above. \<open>double_arith\<close> is IEEE 754 binary64 on finite values: it reads
  a finite double as the real number it denotes and rounds every result to the nearest
  double, ties to the even significand (53 bits, least exponent \<open>-1022\<close>), \<open>a ** 2\<close>
  being the rounded product \<open>a * a\<close>; a square of magnitude \<open>2^1024\<close> or more and a
  quotient of magnitude \<open>2^1024\<close> or more raise \<open>OverflowError\<close>. It is the arithmetic of
  the interpreter where operands and results are finite doubles and quotients are below
  \<open>2^50\<close> or overflow; infinities and NaN are not values of it.
  \<open>4835703278458517 / 2^82\<close> is the double \<open>1e-9\<close>.
\<close>

definition exact_arith :: "real arith" where
  "exact_arith =
     \<lparr>fl_sub = (\<lambda>a b. a - b), fl_add = (\<lambda>a b. a + b), fl_mul = (\<lambda>a b. a * b),
      fl_sqr = (\<lambda>a. Inr (a\<^sup>2)), fl_le = (\<lambda>a b. a \<le> b), fl_gt = (\<lambda>a b. a > b),
      fl_floordiv_int = (\<lambda>x c. if c = 0 then Inl ZeroDivisionError else Inr \<lfloor>x / c\<rfloor>),
      fl_tiny = 1 / 10 ^ 9\<rparr>"

definition round_half_even :: "real \<Rightarrow> int" where
  "round_half_even r =
     (let f = \<lfloor>r\<rfloor>; d = r - of_int f
      in if d < 1 / 2 then f else if 1 / 2 < d then f + 1 else if even f then f else f + 1)"

definition ulp53 :: "real \<Rightarrow> real" where
  "ulp53 x = 2 powr (of_int (max \<lfloor>log 2 \<bar>x\<bar>\<rfloor> (- 1022)) - 52)"

definition rnd53 :: "real \<Rightarrow> real" where
  "rnd53 x = (if x = 0 then 0 else of_int (round_half_even (x / ulp53 x)) * ulp53 x)"

definition double_arith :: "real arith" where
  "double_arith =
     \<lparr>fl_sub = (\<lambda>a b. rnd53 (a - b)), fl_add = (\<lambda>a b. rnd53 (a + b)),
      fl_mul = (\<lambda>a b. rnd53 (a * b)),
      fl_sqr = (\<lambda>a. if 2 ^ 1024 \<le> rnd53 (a * a) then Inl OverflowError else Inr (rnd53 (a * a))),
      fl_le = (\<lambda>a b. a \<le> b), fl_gt = (\<lambda>a b. a > b),
      fl_floordiv_int =
        (\<lambda>x c. if c = 0 then Inl ZeroDivisionError
               else if 2 ^ 1024 \<le> \<bar>x / c\<bar> then Inl OverflowError
               else Inr \<lfloor>x / c\<rfloor>),
      fl_tiny = 4835703278458517 / 2 ^ 82\<rparr>"

subsection \<open>Disconnected roads\<close>



subsection \<open>Self-intersections\<close>

definition cross2d :: "real \<Rightarrow> real \<Rightarrow> real \<Rightarrow> real \<Rightarrow> real \<Rightarrow> real \<Rightarrow> real" where
  "cross2d ox oy ax ay bx by = (ax - ox) * (by - oy) - (ay - oy) * (bx - ox)"

definition on_segment :: "real \<Rightarrow> real \<Rightarrow> real \<Rightarrow> real \<Rightarrow> real \<Rightarrow> real \<Rightarrow> bool" where
  "on_segment px py qx qy rx ry =
     (min px rx \<le> qx \<and> qx \<le> max px rx \<and> min py ry \<le> qy \<and> qy \<le> max py ry)"

definition segments_cross :: "point \<Rightarrow> point \<Rightarrow> point \<Rightarrow> point \<Rightarrow> bool" where
  "segments_cross p1 q1 p2 q2 =
     (let d1 = cross2d (fst p2) (snd p2) (fst q2) (snd q2) (fst p1) (snd p1);
          d2 = cross2d (fst p2) (snd p2) (fst q2) (snd q2) (fst q1) (snd q1);
          d3 = cross2d (fst p1) (snd p1) (fst q1) (snd q1) (fst p2) (snd p2);
          d4 = cross2d (fst p1) (snd p1) (fst q1) (snd q1) (fst q2) (snd q2)
      in if ((d1 > 0 \<and> d2 < 0) \<or> (d1 < 0 \<and> d2 > 0)) \<and>
            ((d3 > 0 \<and> d4 < 0) \<or> (d3 < 0 \<and> d4 > 0)) then True
         else if d1 = 0 \<and> on_segment (fst p2) (snd p2) (fst p1) (snd p1) (fst q2) (snd q2) then True
         else if d2 = 0 \<and> on_segment (fst p2) (snd p2) (fst q1) (snd q1) (fst q2) (snd q2) then True
         else if d3 = 0 \<and> on_segment (fst p1) (snd p1) (fst p2) (snd p2) (fst q1) (snd q1) then True
         else if d4 = 0 \<and> on_segment (fst p1) (snd p1) (fst q2) (snd q2) (fst q1) (snd q1) then True
         else False)"

definition intersection_point :: "point \<Rightarrow> point \<Rightarrow> point \<Rightarrow> point \<Rightarrow> point option" where
  "intersection_point p1 q1 p2 q2 =
     (case (p1, q1, p2, q2) of
        ((x1, y1), (x2, y2), (x3, y3), (x4, y4)) \<Rightarrow>
          let denom = (x1 - x2) * (y3 - y4) - (y1 - y2) * (x3 - x4)
          in if \<bar>denom\<bar> < 1 / 10 ^ 12 then None
             else
               let t = ((x1 - x3) * (y3 - y4) - (y1 - y3) * (x3 - x4)) / denom
               in Some (x1 + t * (x2 - x1), y1 + t * (y2 - y1)))"

text \<open>
  The loops of \<open>find_self_intersections\<close> for one road. Each function returns the point
  appended to \<open>results\<close> when its loop sets \<open>found\<close>, and \<open>None\<close> when the loop ends with
  \<open>found\<close> still false. The indices \<open>i, i + 1, j, j + 1\<close> are below \<open>len(part)\<close> by the
  bounds of the two \<open>range\<close>s. A point is a pair, which Python takes as true in
  \<open>if pt\<close>; only \<open>None\<close> is skipped, and then the scan goes on with the next \<open>j\<close>.
\<close>

fun scan_j :: "point list \<Rightarrow> nat \<Rightarrow> nat list \<Rightarrow> point option" where
  "scan_j part i [] = None"
| "scan_j part i (j # js) =
     (if segments_cross (part ! i) (part ! (i + 1)) (part ! j) (part ! (j + 1)) then
        (case intersection_point (part ! i) (part ! (i + 1)) (part ! j) (part ! (j + 1)) of
           Some pt \<Rightarrow> Some pt
         | None \<Rightarrow> scan_j part i js)
      else scan_j part i js)"

fun scan_i :: "point list \<Rightarrow> nat list \<Rightarrow> point option" where
  "scan_i part [] = None"
| "scan_i part (i # is) =
     (case scan_j part i [i + 2 ..< length part - 1] of
        Some pt \<Rightarrow> Some pt
      | None \<Rightarrow> scan_i part is)"

fun scan_parts :: "point list list \<Rightarrow> point option" where
  "scan_parts [] = None"
| "scan_parts (part # parts) =
     (if length part < 4 then scan_parts parts
      else case scan_i part [0 ..< length part - 1] of
             Some pt \<Rightarrow> Some pt
           | None \<Rightarrow> scan_parts parts)"

definition find_self_intersections ::
  "(int \<times> point list list) list \<Rightarrow> (int \<times> real \<times> real) list" where
  "find_self_intersections vertices_by_road =
     concat (map (\<lambda>(fid, parts).
                    case scan_parts parts of
                      None \<Rightarrow> []
                    | Some (ix, iy) \<Rightarrow> [(fid, ix, iy)])
               vertices_by_road)"

section \<open>Example inputs\<close>

definition unit_square :: geometry where
  "unit_square =
     \<lparr>gtype = Polygon, pointCount = 5, area = 1, glength = 4, gextent = Some (0, 0, 1, 1)\<rparr>"

definition shifted_square :: geometry where
  "shifted_square =
     \<lparr>gtype = Polygon, pointCount = 5, area = 1, glength = 4,
      gextent = Some (1/2, 1/2, 3/2, 3/2)\<rparr>"

text \<open>
  A provider's \<open>intersect\<close> for the two squares: a polygon of a quarter of a unit of area,
  and never of more area than either operand.
\<close>

definition quarter_intersect :: "geometry \<Rightarrow> geometry \<Rightarrow> nat \<Rightarrow> geometry option" where
  "quarter_intersect a b dimension =
     Some \<lparr>gtype = Polygon, pointCount = 5,
           area = min (1/4) (min (area a) (area b)), glength = 2,
           gextent = Some (1/2, 1/2, 1, 1)\<rparr>"

definition negative_cell_index :: spatial_index where
  "negative_cell_index =
     \<lparr>cell_size = - 1, grid = Map.empty,
      geometries = [1 \<mapsto> Some unit_square, 2 \<mapsto> Some unit_square],
      extents = [1 \<mapsto> (0, 0, 1, 1), 2 \<mapsto> (0, 0, 1, 1)]\<rparr>"

definition two_square_index :: spatial_index where
  "two_square_index =
     \<lparr>cell_size = 20, grid = [(0, 0) \<mapsto> [1, 2]],
      geometries = [1 \<mapsto> Some unit_square, 2 \<mapsto> Some shifted_square],
      extents = [1 \<mapsto> (0, 0, 1, 1), 2 \<mapsto> (1/2, 1/2, 3/2, 3/2)]\<rparr>"

section \<open>Vocabulary of the proofs\<close>

text \<open>
  Notions used to state invariants and results; none of them is part of the program.
\<close>

subsection \<open>Grids\<close>

text \<open>The list stored under a key of a grid, empty when the key is absent.\<close>

definition bucket :: "('k \<rightharpoonup> 'v list) \<Rightarrow> 'k \<Rightarrow> 'v list" where
  "bucket g k = (case g k of None \<Rightarrow> [] | Some l \<Rightarrow> l)"

subsection \<open>Dangles\<close>

text \<open>
  The cell of an endpoint, the entry the hash keeps of it, and the invariant of the
  first loop of \<open>find_dangles\<close>: each bucket holds the entries of the endpoints of its
  cell, in the order they were read. \<open>close_to\<close> is the test of the innermost loop.
\<close>

definition cell_of :: "real \<Rightarrow> endpoint \<Rightarrow> int \<times> int" where
  "cell_of cell ep = (case ep of (fid, x, y, i) \<Rightarrow> (\<lfloor>x / cell\<rfloor>, \<lfloor>y / cell\<rfloor>))"

definition strip_index :: "int \<times> 'v \<times> 'v \<times> nat \<Rightarrow> int \<times> 'v \<times> 'v" where
  "strip_index ep = (case ep of (fid, x, y, i) \<Rightarrow> (fid, x, y))"

definition hash_inv :: "real \<Rightarrow> ep_grid \<times> endpoint list \<Rightarrow> bool" where
  "hash_inv cell st =
     (\<forall>k. bucket (fst st) k = map strip_index (filter (\<lambda>ep. cell_of cell ep = k) (snd st)))"

definition close_to :: "int \<Rightarrow> real \<Rightarrow> real \<Rightarrow> real \<Rightarrow> int \<times> real \<times> real \<Rightarrow> bool" where
  "close_to fid x y tol_sq o3 =
     (case o3 of (ofid, ox, oy) \<Rightarrow> ofid \<noteq> fid \<and> (x - ox)\<^sup>2 + (y - oy)\<^sup>2 \<le> tol_sq)"

text \<open>
  The same for the program with the arithmetic as a parameter: the key of an endpoint,
  the invariant of the first loop (each bucket holds the entries of the endpoints with
  its key, and the key of every endpoint read so far was computed without an error),
  and the neighbours that pass the test of the innermost loop.
\<close>

definition key_of :: "'v arith \<Rightarrow> 'v \<Rightarrow> int \<times> 'v \<times> 'v \<times> nat \<Rightarrow> py_error + (int \<times> int)" where
  "key_of A cell ep = (case ep of (fid, x, y, i) \<Rightarrow> grid_key_fl A x y cell)"

definition hash_inv_fl ::
  "'v arith \<Rightarrow> 'v \<Rightarrow>
   ((int \<times> int) \<rightharpoonup> (int \<times> 'v \<times> 'v) list) \<times> (int \<times> 'v \<times> 'v \<times> nat) list \<Rightarrow> bool" where
  "hash_inv_fl A cell st =
     ((\<forall>k. bucket (fst st) k = map strip_index (filter (\<lambda>ep. key_of A cell ep = Inr k) (snd st)))
      \<and> (\<forall>ep \<in> set (snd st). \<exists>k. key_of A cell ep = Inr k))"

definition close_to_fl :: "'v arith \<Rightarrow> int \<Rightarrow> 'v \<Rightarrow> 'v \<Rightarrow> 'v \<Rightarrow> int \<times> 'v \<times> 'v \<Rightarrow> bool" where
  "close_to_fl A fid x y tol_sq o3 =
     (case o3 of (ofid, ox, oy) \<Rightarrow> ofid \<noteq> fid \<and> dist_test A x y ox oy tol_sq = Inr True)"

text \<open>
  A run raises nothing when the key of every endpoint and the test between every two
  endpoints are computed without an error.
\<close>

definition no_error :: "py_error + 'a \<Rightarrow> bool" where
  "no_error r = (case r of Inl e \<Rightarrow> False | Inr v \<Rightarrow> True)"

definition raises_nothing :: "'v arith \<Rightarrow> (int \<times> ('v \<times> 'v) list) list \<Rightarrow> 'v \<Rightarrow> bool" where
  "raises_nothing A endpoints_by_road tolerance =
     (let cell = py_max A tolerance (fl_tiny A);
          tol_sq = fl_mul A tolerance tolerance;
          eps = all_endpoints endpoints_by_road
      in list_all (\<lambda>(fid, x, y, i).
           no_error (grid_key_fl A x y cell) \<and>
           list_all (\<lambda>(ofid, ox, oy, oi). no_error (dist_test A x y ox oy tol_sq)) eps) eps)"

subsection \<open>Disconnected roads\<close>




subsection \<open>Grid index\<close>

text \<open>
  The cells an extent spans when the division does not raise; an extent that is a
  rectangle; the invariants of an index: every id is in every cell of its stored extent
  (\<open>idx_sound\<close>), every id in a cell has a stored extent (\<open>idx_dom\<close>), and, when no id is
  inserted twice, an id is in exactly the cells of its stored extent (\<open>idx_exact\<close>).
  \<open>cand_set\<close> is the set that \<open>query_candidates\<close> enumerates.
\<close>

definition keys_of :: "real \<Rightarrow> extent \<Rightarrow> (int \<times> int) list" where
  "keys_of c ext =
     (case ext of (xmin, ymin, xmax, ymax) \<Rightarrow>
        List.product [\<lfloor>xmin / c\<rfloor>..\<lfloor>xmax / c\<rfloor>] [\<lfloor>ymin / c\<rfloor>..\<lfloor>ymax / c\<rfloor>])"

definition valid_extent :: "extent \<Rightarrow> bool" where
  "valid_extent ext = (case ext of (xmin, ymin, xmax, ymax) \<Rightarrow> xmin \<le> xmax \<and> ymin \<le> ymax)"

definition idx_sound :: "spatial_index \<Rightarrow> bool" where
  "idx_sound s =
     (\<forall>fid ext k. extents s fid = Some ext \<longrightarrow> k \<in> set (keys_of (cell_size s) ext) \<longrightarrow>
        fid \<in> set (bucket (grid s) k))"

definition idx_dom :: "spatial_index \<Rightarrow> bool" where
  "idx_dom s = (\<forall>k fid. fid \<in> set (bucket (grid s) k) \<longrightarrow> extents s fid \<noteq> None)"

definition idx_exact :: "spatial_index \<Rightarrow> bool" where
  "idx_exact s =
     (\<forall>fid k. fid \<in> set (bucket (grid s) k) \<longleftrightarrow>
        (\<exists>ext. extents s fid = Some ext \<and> k \<in> set (keys_of (cell_size s) ext)))"

definition cand_set :: "spatial_index \<Rightarrow> int \<Rightarrow> int set" where
  "cand_set s fid =
     (case extents s fid of
        None \<Rightarrow> {}
      | Some ext \<Rightarrow> (\<Union>k \<in> set (keys_of (cell_size s) ext). set (bucket (grid s) k)) - {fid})"

text \<open>The body of the loop that builds the index.\<close>

definition insert_feature :: "int \<times> geometry option \<Rightarrow> spatial_index \<Rightarrow> py_error + spatial_index" where
  "insert_feature = (\<lambda>(fid, geom) s. insert_index s fid geom)"

subsection \<open>Pairwise overlaps\<close>

text \<open>
  The key of a record in \<open>processed_pairs\<close>; what the inner loop guarantees of a record
  it yields for the candidate \<open>fb\<close> of \<open>fa\<close> (\<open>emitted\<close>) and what the two loops
  guarantee of it (\<open>sourced\<close>); the invariant of the loops for uniqueness and ratio
  (\<open>ov_inv\<close>); the cell size the function computes.
\<close>

definition pair_key :: "overlap_result \<Rightarrow> int \<times> int" where
  "pair_key r = (min (fid_a r) (fid_b r), max (fid_a r) (fid_b r))"

definition emitted ::
  "(geometry \<Rightarrow> geometry \<Rightarrow> nat \<Rightarrow> geometry option) \<Rightarrow>
   (int \<times> geometry option) list \<Rightarrow> (int \<times> extent) list \<Rightarrow> real \<Rightarrow> real \<Rightarrow> real \<Rightarrow>
   int \<Rightarrow> geometry option \<Rightarrow> real \<Rightarrow> extent \<Rightarrow> int \<Rightarrow> overlap_result \<Rightarrow> bool" where
  "emitted intersect features exts min_overlap_area duplicate_threshold partial_threshold
       fa geom_a area_a extent_a fb r =
     (fid_a r = fa \<and> fid_b r = fb \<and>
      (\<exists>geom_b extent_b.
         map_of features fb = Some geom_b \<and> validate_polygon_geometry geom_b \<and>
         0 < get_geometry_area geom_b \<and> map_of exts fb = Some extent_b \<and>
         extents_intersect extent_a extent_b \<and>
         get_intersection_geometry intersect geom_a geom_b 4 = Some (overlap_geometry r) \<and>
         overlap_area r = get_geometry_area (Some (overlap_geometry r)) \<and>
         min_overlap_area \<le> overlap_area r \<and>
         overlap_ratio r =
           (if min area_a (get_geometry_area geom_b) > 0
            then overlap_area r / min area_a (get_geometry_area geom_b) else 0) \<and>
         overlap_type r = classify_overlap (overlap_ratio r) duplicate_threshold partial_threshold))"

definition sourced ::
  "(geometry \<Rightarrow> geometry \<Rightarrow> nat \<Rightarrow> geometry option) \<Rightarrow>
   (int \<times> geometry option) list \<Rightarrow> (int \<times> extent) list \<Rightarrow> real \<Rightarrow> real \<Rightarrow> real \<Rightarrow>
   overlap_result \<Rightarrow> bool" where
  "sourced intersect features exts min_overlap_area duplicate_threshold partial_threshold r =
     (\<exists>geom_a extent_a.
        map_of features (fid_a r) = Some geom_a \<and> validate_polygon_geometry geom_a \<and>
        0 < get_geometry_area geom_a \<and> map_of exts (fid_a r) = Some extent_a \<and>
        emitted intersect features exts min_overlap_area duplicate_threshold partial_threshold
          (fid_a r) geom_a (get_geometry_area geom_a) extent_a (fid_b r) r)"

definition ov_inv ::
  "(geometry \<Rightarrow> geometry \<Rightarrow> nat \<Rightarrow> geometry option) \<Rightarrow>
   (int \<times> geometry option) list \<Rightarrow> (int \<times> extent) list \<Rightarrow> real \<Rightarrow> real \<Rightarrow> real \<Rightarrow>
   (int \<times> int) set \<times> overlap_result list \<Rightarrow> bool" where
  "ov_inv intersect features exts min_overlap_area duplicate_threshold partial_threshold st =
     (distinct (map pair_key (snd st)) \<and>
      (\<forall>r \<in> set (snd st). pair_key r \<in> fst st \<and>
         sourced intersect features exts min_overlap_area duplicate_threshold
           partial_threshold r))"

definition overlap_cell_size :: "(int \<times> geometry option) list \<Rightarrow> real" where
  "overlap_cell_size features =
     (case collect_extents features of
        (exts, total_width, total_height) \<Rightarrow>
          max ((total_width + total_height) / (2 * real (length exts))) 10 * 2)"

text \<open>
  For the log: the state without it, the unordered pair of a logged pair, and the
  invariant of the loops: no unordered pair is logged twice, the key of every logged
  pair is in \<open>processed_pairs\<close>, and every record was logged.
\<close>

definition erase_log :: "'p \<times> 'o \<times> 'l \<Rightarrow> 'p \<times> 'o" where
  "erase_log st = (fst st, fst (snd st))"

definition unordered :: "int \<times> int \<Rightarrow> int set" where
  "unordered p = {fst p, snd p}"

definition log_inv :: "(int \<times> int) set \<times> overlap_result list \<times> (int \<times> int) list \<Rightarrow> bool" where
  "log_inv st =
     (case st of (processed_pairs, out, evaluated) \<Rightarrow>
        distinct (map unordered evaluated) \<and>
        (\<forall>p \<in> set evaluated. (min (fst p) (snd p), max (fst p) (snd p)) \<in> processed_pairs) \<and>
        (\<forall>r \<in> set out. (fid_a r, fid_b r) \<in> set evaluated))"

text \<open>
  For the order of the ids: a feature that gets past the three \<open>continue\<close>s of the outer
  loop; a record whose \<open>fid_a\<close> comes before its \<open>fid_b\<close> in the list of ids; the
  invariant of the outer loop after the ids \<open>visited\<close>.
\<close>

definition passes_checks :: "(int \<times> geometry option) list \<Rightarrow> (int \<times> extent) list \<Rightarrow> int \<Rightarrow> bool" where
  "passes_checks features exts fid =
     (\<exists>geom. map_of features fid = Some geom \<and> validate_polygon_geometry geom \<and>
        0 < get_geometry_area geom \<and> map_of exts fid \<noteq> None)"

definition in_order :: "int list \<Rightarrow> overlap_result \<Rightarrow> bool" where
  "in_order fids r = (\<exists>p q. fids = p @ fid_a r # q \<and> fid_b r \<in> set q)"

definition order_inv ::
  "(int \<times> geometry option) list \<Rightarrow> (int \<times> extent) list \<Rightarrow> spatial_index \<Rightarrow> int list \<Rightarrow>
   (int \<times> int) set \<times> overlap_result list \<Rightarrow> bool" where
  "order_inv features exts s visited st =
     ((\<forall>a \<in> set visited. passes_checks features exts a \<longrightarrow>
         (\<forall>b \<in> cand_set s a. (min a b, max a b) \<in> fst st)) \<and>
      (\<forall>r \<in> set (snd st). in_order (map fst features) r))"

subsection \<open>Segments\<close>

text \<open>
  A point of the closed segment from \<open>p\<close> to \<open>q\<close>; two segments with a common point; a
  part in which segments at index distance \<open>\<ge> 2\<close> have no common point.
\<close>

definition on_closed_segment :: "point \<Rightarrow> point \<Rightarrow> point \<Rightarrow> bool" where
  "on_closed_segment p q r =
     (\<exists>t. 0 \<le> t \<and> t \<le> 1 \<and>
          r = (fst p + t * (fst q - fst p), snd p + t * (snd q - snd p)))"

definition segments_meet :: "point \<Rightarrow> point \<Rightarrow> point \<Rightarrow> point \<Rightarrow> bool" where
  "segments_meet p1 q1 p2 q2 =
     (\<exists>r. on_closed_segment p1 q1 r \<and> on_closed_segment p2 q2 r)"

definition apart :: "point list \<Rightarrow> bool" where
  "apart part =
     (\<forall>i j. i + 2 \<le> j \<and> j + 1 < length part \<longrightarrow>
        \<not> segments_meet (part ! i) (part ! (i + 1)) (part ! j) (part ! (j + 1)))"

section \<open>Theorems\<close>

subsection \<open>Classification\<close>

text \<open>
  C4. For every ratio and every pair of thresholds with duplicate \<open>\<ge>\<close> partial,
  \<open>classify_overlap\<close> returns one of the three labels; it is \<open>DUPLICATE\<close> exactly when
  the ratio reaches the duplicate threshold, \<open>PARTIAL\<close> exactly when the ratio lies in
  the half-open interval from the partial to the duplicate threshold, and \<open>SLIVER\<close>
  exactly in the remaining case, the ratio below the partial threshold.
\<close>

theorem classify_overlap_total:
  assumes "duplicate_threshold \<ge> partial_threshold"
  shows "classify_overlap r duplicate_threshold partial_threshold
           \<in> {''DUPLICATE'', ''PARTIAL'', ''SLIVER''}
       \<and> (classify_overlap r duplicate_threshold partial_threshold = ''DUPLICATE''
            \<longleftrightarrow> r \<ge> duplicate_threshold)
       \<and> (classify_overlap r duplicate_threshold partial_threshold = ''PARTIAL''
            \<longleftrightarrow> partial_threshold \<le> r \<and> r < duplicate_threshold)
       \<and> (classify_overlap r duplicate_threshold partial_threshold = ''SLIVER''
            \<longleftrightarrow> \<not> r \<ge> duplicate_threshold \<and> \<not> (partial_threshold \<le> r \<and> r < duplicate_threshold))"
  using assms by (auto simp: classify_overlap_def)

theorem classify_overlap_total_witness:
  "(9/10 :: real) \<ge> 1/2
   \<and> classify_overlap (1/4) (9/10) (1/2) \<in> {''DUPLICATE'', ''PARTIAL'', ''SLIVER''}
   \<and> classify_overlap (1/4) (9/10) (1/2) = ''SLIVER''
   \<and> classify_overlap (3/5) (9/10) (1/2) = ''PARTIAL''
   \<and> classify_overlap 1 (9/10) (1/2) = ''DUPLICATE''"
proof -
  have h: "(9/10 :: real) \<ge> 1/2" by simp
  show ?thesis
    using h classify_overlap_total [OF h, of "1/4"] classify_overlap_total [OF h, of "3/5"]
      classify_overlap_total [OF h, of 1]
    by simp
qed

subsection \<open>Buffering\<close>

text \<open>
  C9. For a geometry that is not null, \<open>buffer_geometry\<close> with a distance \<open>\<le> 0\<close> returns
  the geometry it was given (which is not \<open>None\<close>), whatever the provider's buffer
  operation is; with a distance \<open>> 0\<close> the result is what the provider's buffer
  operation returns.
\<close>

theorem buffer_geometry_nonpositive:
  assumes "\<not> is_geometry_null geom"
  shows "(distance \<le> 0 \<longrightarrow> buffer_geometry buffer geom distance = geom \<and> geom \<noteq> None)
       \<and> (distance > 0 \<longrightarrow>
            buffer_geometry buffer geom distance =
              (case geom of None \<Rightarrow> None | Some g \<Rightarrow> buffer g distance))"
  using assms by (cases geom) (simp_all add: buffer_geometry_def is_geometry_null_def)

theorem buffer_geometry_nonpositive_witness:
  "\<not> is_geometry_null (Some unit_square)
   \<and> buffer_geometry (\<lambda>g d. None) (Some unit_square) (- 1) = Some unit_square
   \<and> buffer_geometry (\<lambda>g d. None) (Some unit_square) 0 = Some unit_square
   \<and> buffer_geometry (\<lambda>g d. Some shifted_square) (Some unit_square) 2 = Some shifted_square"
proof -
  have h: "\<not> is_geometry_null (Some unit_square)"
    by (simp add: is_geometry_null_def unit_square_def)
  show ?thesis
    using h buffer_geometry_nonpositive [OF h, of "- 1" "\<lambda>g d. None"]
      buffer_geometry_nonpositive [OF h, of 0 "\<lambda>g d. None"]
      buffer_geometry_nonpositive [OF h, of 2 "\<lambda>g d. Some shifted_square"]
    by simp
qed

subsection \<open>Loops with errors\<close>

lemma for_each_invariant:
  assumes "for_each body xs st = Inr st'" and "I st"
    and "\<And>x s s'. x \<in> set xs \<Longrightarrow> I s \<Longrightarrow> body x s = Inr s' \<Longrightarrow> I s'"
  shows "I st'"
  using assms
proof (induction xs arbitrary: st)
  case Nil
  then show ?case by simp
next
  case (Cons x xs)
  from Cons.prems(1) obtain s1 where s1: "body x st = Inr s1" "for_each body xs s1 = Inr st'"
    by (auto split: sum.splits)
  have "I s1" using Cons.prems(2,3) s1(1) by auto
  then show ?case using Cons.IH [OF s1(2)] Cons.prems(3) by auto
qed

lemma for_each_returns:
  assumes "\<And>x s. x \<in> set xs \<Longrightarrow> \<exists>s'. body x s = Inr s'"
  shows "\<exists>s'. for_each body xs st = Inr s'"
  using assms
proof (induction xs arbitrary: st)
  case Nil
  then show ?case by simp
next
  case (Cons x xs)
  obtain s1 where "body x st = Inr s1" using Cons.prems [of x st] by auto
  then show ?case using Cons.IH [of s1] Cons.prems by auto
qed

lemma for_each_prefix_invariant:
  assumes "for_each body ys s = Inr st'" and "I pre s" and "xs = pre @ ys"
    and "\<And>p x q t t'. xs = p @ x # q \<Longrightarrow> I p t \<Longrightarrow> body x t = Inr t' \<Longrightarrow> I (p @ [x]) t'"
  shows "I xs st'"
  using assms(1-3)
proof (induction ys arbitrary: pre s)
  case Nil
  then show ?case by simp
next
  case (Cons y ys)
  obtain s1 where s1: "body y s = Inr s1" "for_each body ys s1 = Inr st'"
    using Cons.prems(1) by (auto split: sum.splits)
  have "I (pre @ [y]) s1" using assms(4) [OF Cons.prems(3) Cons.prems(2) s1(1)] .
  then show ?case using Cons.IH [OF s1(2), of "pre @ [y]"] Cons.prems(3) by simp
qed

lemma for_each_erase:
  assumes "\<And>x t. x \<in> set xs \<Longrightarrow> map_sum id erase (body_log x t) = body x (erase t)"
  shows "map_sum id erase (for_each body_log xs t) = for_each body xs (erase t)"
  using assms
proof (induction xs arbitrary: t)
  case Nil
  then show ?case by simp
next
  case (Cons x xs)
  have step: "map_sum id erase (body_log x t) = body x (erase t)"
    by (rule Cons.prems) simp
  show ?case
  proof (cases "body_log x t")
    case (Inl e)
    then show ?thesis using step by (auto simp: map_sum_def split: sum.splits)
  next
    case (Inr t1)
    then have "body x (erase t) = Inr (erase t1)" using step by simp
    then show ?thesis using Inr Cons.IH [of t1] Cons.prems by simp
  qed
qed

subsection \<open>Dangles: the spatial hash\<close>

lemma bucket_grid_append:
  "bucket (grid_append g k0 v) k = (if k = k0 then bucket g k @ [v] else bucket g k)"
  by (simp add: bucket_def grid_append_def)

lemma bucket_empty: "bucket Map.empty k = []"
  by (simp add: bucket_def)

lemma add_endpoint_Inr:
  "cell \<noteq> 0 \<Longrightarrow>
   add_endpoint cell fid (i, (x, y)) (g, eps) =
     Inr (grid_append g (\<lfloor>x / cell\<rfloor>, \<lfloor>y / cell\<rfloor>) (fid, x, y), eps @ [(fid, x, y, i)])"
  by (simp add: add_endpoint_def grid_key_def)

lemma add_endpoint_inv:
  assumes "cell \<noteq> 0" "hash_inv cell st" "add_endpoint cell fid ip st = Inr st'"
  shows "hash_inv cell st'"
proof -
  obtain i x y where ip: "ip = (i, (x, y))" by (metis surj_pair)
  obtain g eps where st: "st = (g, eps)" by (metis surj_pair)
  show ?thesis
    using assms unfolding ip st
    by (auto simp: add_endpoint_Inr hash_inv_def bucket_grid_append cell_of_def strip_index_def)
qed

lemma add_road:
  assumes "cell \<noteq> 0"
  shows "for_each (add_endpoint cell fid) ips (g, eps) =
           Inr (fold (\<lambda>(i, (x, y)) g. grid_append g (\<lfloor>x / cell\<rfloor>, \<lfloor>y / cell\<rfloor>) (fid, x, y)) ips g,
                eps @ map (\<lambda>(i, (x, y)). (fid, x, y, i)) ips)"
  using assms
  by (induction ips arbitrary: g eps) (auto simp: add_endpoint_Inr)

lemma build_hash:
  assumes "cell \<noteq> 0"
  shows "\<exists>g. for_each (\<lambda>(fid, pts). for_each (add_endpoint cell fid) (enumerate 0 pts)) e (g0, eps0)
              = Inr (g, eps0 @ all_endpoints e) \<and>
             (hash_inv cell (g0, eps0) \<longrightarrow> hash_inv cell (g, eps0 @ all_endpoints e))"
  using assms
proof (induction e arbitrary: g0 eps0)
  case Nil
  then show ?case by (simp add: all_endpoints_def)
next
  case (Cons r e)
  obtain fid pts where r: "r = (fid, pts)" by (metis surj_pair)
  let ?g1 = "fold (\<lambda>(i, (x, y)) g. grid_append g (\<lfloor>x / cell\<rfloor>, \<lfloor>y / cell\<rfloor>) (fid, x, y)) (enumerate 0 pts) g0"
  let ?e1 = "eps0 @ map (\<lambda>(i, (x, y)). (fid, x, y, i)) (enumerate 0 pts)"
  have step: "for_each (add_endpoint cell fid) (enumerate 0 pts) (g0, eps0) = Inr (?g1, ?e1)"
    using add_road [OF Cons.prems] .
  have inv1: "hash_inv cell (g0, eps0) \<Longrightarrow> hash_inv cell (?g1, ?e1)"
    using for_each_invariant [OF step, of "hash_inv cell"] add_endpoint_inv [OF Cons.prems]
    by blast
  from Cons.IH [OF Cons.prems, of ?g1 ?e1] obtain g where
    g: "for_each (\<lambda>(fid, pts). for_each (add_endpoint cell fid) (enumerate 0 pts)) e (?g1, ?e1)
          = Inr (g, ?e1 @ all_endpoints e)"
       "hash_inv cell (?g1, ?e1) \<longrightarrow> hash_inv cell (g, ?e1 @ all_endpoints e)"
    by blast
  have eq: "?e1 @ all_endpoints e = eps0 @ all_endpoints (r # e)"
    by (simp add: all_endpoints_def r)
  show ?case
    using g inv1 step unfolding eq [symmetric] by (auto simp: r)
qed

lemma scan_bucket_iff:
  "scan_bucket fid x y tol_sq b \<longleftrightarrow> (\<exists>o3 \<in> set b. close_to fid x y tol_sq o3)"
  by (induction fid x y tol_sq b rule: scan_bucket.induct) (auto simp: close_to_def)

lemma scan_dy_iff:
  "scan_dy g fid x y tol_sq cx gy dys \<longleftrightarrow>
     (\<exists>dy \<in> set dys. \<exists>o3 \<in> set (bucket g (cx, gy + dy)). close_to fid x y tol_sq o3)"
  by (induction dys) (auto simp: scan_bucket_iff bucket_def split: option.splits)

lemma scan_dx_iff:
  "scan_dx g fid x y tol_sq gx gy dxs \<longleftrightarrow>
     (\<exists>dx \<in> set dxs. \<exists>dy \<in> {-1, 0, 1}.
        \<exists>o3 \<in> set (bucket g (gx + dx, gy + dy)). close_to fid x y tol_sq o3)"
  by (induction dxs) (auto simp: scan_dy_iff)

lemma floor_neighbour:
  fixes x ox c :: real
  assumes "0 < c" "\<bar>x - ox\<bar> \<le> c"
  shows "\<lfloor>ox / c\<rfloor> - \<lfloor>x / c\<rfloor> \<in> {-1, 0, 1}"
proof -
  have "ox \<le> x + c" "x \<le> ox + c" using assms(2) by linarith+
  then have a: "ox / c \<le> x / c + 1" and b: "x / c \<le> ox / c + 1"
    using assms(1) by (simp_all add: field_simps)
  have "\<lfloor>ox / c\<rfloor> \<le> \<lfloor>x / c + 1\<rfloor>" using a by (rule floor_mono)
  moreover have "\<lfloor>x / c\<rfloor> \<le> \<lfloor>ox / c + 1\<rfloor>" using b by (rule floor_mono)
  ultimately have "\<lfloor>ox / c\<rfloor> \<le> \<lfloor>x / c\<rfloor> + 1" "\<lfloor>x / c\<rfloor> \<le> \<lfloor>ox / c\<rfloor> + 1"
    by simp_all
  then show ?thesis by auto
qed

lemma within_tolerance_abs:
  fixes x ox y oy t :: real
  assumes "0 \<le> t" "(x - ox)\<^sup>2 + (y - oy)\<^sup>2 \<le> t * t"
  shows "\<bar>x - ox\<bar> \<le> t" "\<bar>y - oy\<bar> \<le> t"
proof -
  have "(x - ox)\<^sup>2 \<le> t\<^sup>2" "(y - oy)\<^sup>2 \<le> t\<^sup>2"
    using assms(2) by (simp_all add: power2_eq_square) (smt (verit) zero_le_square)+
  then show "\<bar>x - ox\<bar> \<le> t" "\<bar>y - oy\<bar> \<le> t"
    using assms(1) by (simp_all add: abs_le_square_iff [symmetric])
qed

lemma near_other_road_iff:
  "near_other_road eps t (fid, x, y, i) \<longleftrightarrow>
     (\<exists>ofid ox oy oi. (ofid, ox, oy, oi) \<in> set eps \<and> ofid \<noteq> fid \<and>
        (x - ox)\<^sup>2 + (y - oy)\<^sup>2 \<le> t * t)"
  unfolding near_other_road_def list_ex_iff by (auto simp: power2_eq_square)

lemma connected_iff:
  assumes inv: "hash_inv cell (g, eps)" and cell: "0 < cell" "t \<le> cell" "0 \<le> t"
  shows "scan_dx g fid x y (t * t) \<lfloor>x / cell\<rfloor> \<lfloor>y / cell\<rfloor> [-1, 0, 1]
           \<longleftrightarrow> near_other_road eps t (fid, x, y, i)"
proof
  assume "scan_dx g fid x y (t * t) \<lfloor>x / cell\<rfloor> \<lfloor>y / cell\<rfloor> [-1, 0, 1]"
  then obtain k o3 where "o3 \<in> set (bucket g k)" "close_to fid x y (t * t) o3"
    unfolding scan_dx_iff by blast
  moreover have "bucket g k = map strip_index (filter (\<lambda>ep. cell_of cell ep = k) eps)"
    using inv by (cases k) (simp add: hash_inv_def)
  ultimately obtain ep where "ep \<in> set eps" "strip_index ep = o3"
    by auto
  moreover obtain ofid ox oy oi where "ep = (ofid, ox, oy, oi)" by (metis surj_pair)
  ultimately show "near_other_road eps t (fid, x, y, i)"
    using \<open>close_to fid x y (t * t) o3\<close> unfolding near_other_road_iff
    by (auto simp: close_to_def strip_index_def)
next
  assume "near_other_road eps t (fid, x, y, i)"
  then obtain ofid ox oy oi where o: "(ofid, ox, oy, oi) \<in> set eps" "ofid \<noteq> fid"
    "(x - ox)\<^sup>2 + (y - oy)\<^sup>2 \<le> t * t"
    unfolding near_other_road_iff by blast
  have ab: "\<bar>x - ox\<bar> \<le> cell" "\<bar>y - oy\<bar> \<le> cell"
    using within_tolerance_abs [OF cell(3) o(3)] cell(2) by linarith+
  define dx where "dx = \<lfloor>ox / cell\<rfloor> - \<lfloor>x / cell\<rfloor>"
  define dy where "dy = \<lfloor>oy / cell\<rfloor> - \<lfloor>y / cell\<rfloor>"
  have d: "dx \<in> {-1, 0, 1}" "dy \<in> {-1, 0, 1}"
    using floor_neighbour [OF cell(1) ab(1)] floor_neighbour [OF cell(1) ab(2)]
    unfolding dx_def dy_def by blast+
  have key: "cell_of cell (ofid, ox, oy, oi) = (\<lfloor>x / cell\<rfloor> + dx, \<lfloor>y / cell\<rfloor> + dy)"
    by (simp add: cell_of_def dx_def dy_def)
  have "(ofid, ox, oy) \<in> set (bucket g (\<lfloor>x / cell\<rfloor> + dx, \<lfloor>y / cell\<rfloor> + dy))"
    using inv o(1) key unfolding hash_inv_def
    by (force simp: strip_index_def)
  moreover have "close_to fid x y (t * t) (ofid, ox, oy)"
    using o by (simp add: close_to_def)
  ultimately show "scan_dx g fid x y (t * t) \<lfloor>x / cell\<rfloor> \<lfloor>y / cell\<rfloor> [-1, 0, 1]"
    unfolding scan_dx_iff using d by (metis list.set_intros(1,2) insert_iff empty_iff)
qed

lemma check_all:
  assumes "cell \<noteq> 0"
  shows "for_each (check_endpoint g cell tol_sq) eps acc =
           Inr (acc @ filter (\<lambda>(fid, x, y, i).
                  \<not> scan_dx g fid x y tol_sq \<lfloor>x / cell\<rfloor> \<lfloor>y / cell\<rfloor> [-1, 0, 1]) eps)"
  using assms
  by (induction eps arbitrary: acc)
    (auto simp: check_endpoint_def grid_key_def simp del: scan_dx.simps)

lemma cell_positive: "0 < max (tolerance :: real) (1 / 10 ^ 9)"
  by (simp add: less_max_iff_disj)


lemma find_dangles_naive:
  assumes "0 \<le> tolerance"
  shows "find_dangles e tolerance = Inr (naive_dangles e tolerance)"
proof -
  let ?cell = "max tolerance (1 / 10 ^ 9)"
  have c0: "0 < ?cell" by (rule cell_positive)
  then have c: "?cell \<noteq> 0" by linarith
  have le: "tolerance \<le> ?cell" by simp
  have inv0: "hash_inv ?cell (Map.empty, [])"
    by (simp add: hash_inv_def bucket_empty)
  obtain g where g: "for_each (\<lambda>(fid, pts). for_each (add_endpoint ?cell fid) (enumerate 0 pts)) e
                       (Map.empty, []) = Inr (g, [] @ all_endpoints e)"
    and inv: "hash_inv ?cell (g, [] @ all_endpoints e)"
    using build_hash [OF c, of e Map.empty "[]"] inv0 by blast
  have inv': "hash_inv ?cell (g, all_endpoints e)" using inv by simp
  have "filter (\<lambda>(fid, x, y, i).
           \<not> scan_dx g fid x y (tolerance * tolerance) \<lfloor>x / ?cell\<rfloor> \<lfloor>y / ?cell\<rfloor> [-1, 0, 1])
          (all_endpoints e)
        = filter (\<lambda>ep. \<not> near_other_road (all_endpoints e) tolerance ep) (all_endpoints e)"
  proof (rule filter_cong [OF refl])
    fix ep assume "ep \<in> set (all_endpoints e)"
    obtain fid x y i where ep: "ep = (fid, x, y, i)" by (metis surj_pair)
    show "(case ep of (fid, x, y, i) \<Rightarrow>
             \<not> scan_dx g fid x y (tolerance * tolerance) \<lfloor>x / ?cell\<rfloor> \<lfloor>y / ?cell\<rfloor> [-1, 0, 1])
          = (\<not> near_other_road (all_endpoints e) tolerance ep)"
      unfolding ep prod.case using connected_iff [OF inv' c0 le assms, of fid x y i] by blast
  qed
  then show ?thesis
    unfolding find_dangles_def Let_def naive_dangles_def using g check_all [OF c] by simp
qed

lemma close_pair_not_dangles:
  assumes "(fa, xa, ya, ia) \<in> set (all_endpoints e)" "(fb, xb, yb, ib) \<in> set (all_endpoints e)"
    and "fa \<noteq> fb" and "(xa - xb)\<^sup>2 + (ya - yb)\<^sup>2 \<le> tolerance\<^sup>2"
  shows "(fa, xa, ya, ia) \<notin> set (naive_dangles e tolerance)"
    and "(fb, xb, yb, ib) \<notin> set (naive_dangles e tolerance)"
proof -
  have c: "(xb - xa)\<^sup>2 = (xa - xb)\<^sup>2" "(yb - ya)\<^sup>2 = (ya - yb)\<^sup>2"
    by (rule power2_commute)+
  have d: "(xa - xb)\<^sup>2 + (ya - yb)\<^sup>2 \<le> tolerance * tolerance"
    "(xb - xa)\<^sup>2 + (yb - ya)\<^sup>2 \<le> tolerance * tolerance"
    unfolding c using assms(4) by (simp_all only: power2_eq_square [of tolerance])
  have "near_other_road (all_endpoints e) tolerance (fa, xa, ya, ia)"
    unfolding near_other_road_iff using assms(2,3) d(1) by blast
  then show "(fa, xa, ya, ia) \<notin> set (naive_dangles e tolerance)"
    by (simp add: naive_dangles_def)
  have "near_other_road (all_endpoints e) tolerance (fb, xb, yb, ib)"
    unfolding near_other_road_iff using assms(1,3) d(2) by blast
  then show "(fb, xb, yb, ib) \<notin> set (naive_dangles e tolerance)"
    by (simp add: naive_dangles_def)
qed

subsection \<open>Dangles: the spatial hash in any arithmetic\<close>

lemma add_endpoint_fl_inv:
  assumes "hash_inv_fl A cell st" "add_endpoint_fl A cell fid (i, (x, y)) st = Inr st'"
  shows "hash_inv_fl A cell st' \<and> snd st' = snd st @ [(fid, x, y, i)]"
proof -
  obtain g eps where st: "st = (g, eps)" by (metis surj_pair)
  from assms(2) obtain k where k: "grid_key_fl A x y cell = Inr k"
    and st': "st' = (grid_append g k (fid, x, y), eps @ [(fid, x, y, i)])"
    unfolding st add_endpoint_fl_def by (auto split: sum.splits)
  show ?thesis
    using assms(1) k unfolding st st'
    by (auto simp: hash_inv_fl_def bucket_grid_append key_of_def strip_index_def)
qed

lemma add_road_fl:
  assumes "for_each (add_endpoint_fl A cell fid) ips st = Inr st'" "hash_inv_fl A cell st"
  shows "hash_inv_fl A cell st' \<and> snd st' = snd st @ map (\<lambda>(i, (x, y)). (fid, x, y, i)) ips"
  using assms
proof (induction ips arbitrary: st)
  case Nil
  then show ?case by simp
next
  case (Cons ip ips)
  obtain i x y where ip: "ip = (i, (x, y))" by (metis surj_pair)
  from Cons.prems(1) obtain st1 where
    s1: "add_endpoint_fl A cell fid (i, (x, y)) st = Inr st1"
    and r: "for_each (add_endpoint_fl A cell fid) ips st1 = Inr st'"
    unfolding ip by (auto split: sum.splits)
  have i1: "hash_inv_fl A cell st1 \<and> snd st1 = snd st @ [(fid, x, y, i)]"
    using add_endpoint_fl_inv [OF Cons.prems(2) s1] .
  have "hash_inv_fl A cell st' \<and> snd st' = snd st1 @ map (\<lambda>(i, (x, y)). (fid, x, y, i)) ips"
    using Cons.IH [OF r] i1 by simp
  then show ?case using i1 by (simp add: ip)
qed

lemma build_hash_fl:
  assumes "for_each (\<lambda>(fid, pts). for_each (add_endpoint_fl A cell fid) (enumerate 0 pts)) e st
             = Inr st'"
    and "hash_inv_fl A cell st"
  shows "hash_inv_fl A cell st' \<and> snd st' = snd st @ all_endpoints e"
  using assms
proof (induction e arbitrary: st)
  case Nil
  then show ?case by (simp add: all_endpoints_def)
next
  case (Cons r e)
  obtain fid pts where r: "r = (fid, pts)" by (metis surj_pair)
  from Cons.prems(1) obtain st1 where
    s1: "for_each (add_endpoint_fl A cell fid) (enumerate 0 pts) st = Inr st1"
    and rest: "for_each (\<lambda>(fid, pts). for_each (add_endpoint_fl A cell fid) (enumerate 0 pts)) e st1
                 = Inr st'"
    unfolding r by (auto split: sum.splits)
  have i1: "hash_inv_fl A cell st1"
    "snd st1 = snd st @ map (\<lambda>(i, (x, y)). (fid, x, y, i)) (enumerate 0 pts)"
    using add_road_fl [OF s1 Cons.prems(2)] by simp_all
  have "hash_inv_fl A cell st' \<and> snd st' = snd st1 @ all_endpoints e"
    using Cons.IH [OF rest i1(1)] .
  then show ?case using i1(2) by (simp add: all_endpoints_def r)
qed

lemma scan_bucket_fl_Inr:
  "scan_bucket_fl A fid x y tol_sq b = Inr c \<Longrightarrow>
   c \<longleftrightarrow> (\<exists>o3 \<in> set b. close_to_fl A fid x y tol_sq o3)"
  by (induction A fid x y tol_sq b rule: scan_bucket_fl.induct)
    (auto simp: close_to_fl_def split: sum.splits if_splits)

lemma scan_dy_fl_Inr:
  "scan_dy_fl A g fid x y tol_sq cx gy dys = Inr c \<Longrightarrow>
   c \<longleftrightarrow> (\<exists>dy \<in> set dys. \<exists>o3 \<in> set (bucket g (cx, gy + dy)). close_to_fl A fid x y tol_sq o3)"
proof (induction dys)
  case Nil
  then show ?case by simp
next
  case (Cons dy dys)
  show ?case
  proof (cases "g (cx, gy + dy)")
    case None
    then have "bucket g (cx, gy + dy) = []" by (simp add: bucket_def)
    then show ?thesis using Cons None by simp
  next
    case (Some b)
    then have b: "bucket g (cx, gy + dy) = b" by (simp add: bucket_def)
    from Cons.prems Some obtain c1 where
      c1: "scan_bucket_fl A fid x y tol_sq b = Inr c1"
      and r: "if c1 then c = True else scan_dy_fl A g fid x y tol_sq cx gy dys = Inr c"
      by (auto split: sum.splits if_splits)
    have h1: "c1 \<longleftrightarrow> (\<exists>o3 \<in> set b. close_to_fl A fid x y tol_sq o3)"
      using scan_bucket_fl_Inr [OF c1] .
    show ?thesis
    proof (cases c1)
      case True
      then show ?thesis using r h1 b by auto
    next
      case False
      then have "scan_dy_fl A g fid x y tol_sq cx gy dys = Inr c" using r by simp
      from Cons.IH [OF this] show ?thesis using False h1 b by auto
    qed
  qed
qed

lemma scan_dx_fl_Inr:
  "scan_dx_fl A g fid x y tol_sq gx gy dxs = Inr c \<Longrightarrow>
   c \<longleftrightarrow> (\<exists>dx \<in> set dxs. \<exists>dy \<in> set [-1, 0, 1].
          \<exists>o3 \<in> set (bucket g (gx + dx, gy + dy)). close_to_fl A fid x y tol_sq o3)"
proof -
  define P where "P dx \<longleftrightarrow> (\<exists>dy \<in> set [-1, 0, 1].
      \<exists>o3 \<in> set (bucket g (gx + dx, gy + dy)). close_to_fl A fid x y tol_sq o3)" for dx
  have "scan_dx_fl A g fid x y tol_sq gx gy dxs = Inr c \<Longrightarrow> c \<longleftrightarrow> (\<exists>dx \<in> set dxs. P dx)"
  proof (induction dxs)
    case Nil
    then show ?case by simp
  next
    case (Cons dx dxs)
    from Cons.prems obtain c1 where
      c1: "scan_dy_fl A g fid x y tol_sq (gx + dx) gy [-1, 0, 1] = Inr c1"
      and r: "if c1 then c = True else scan_dx_fl A g fid x y tol_sq gx gy dxs = Inr c"
      by (auto simp del: scan_dy_fl.simps split: sum.splits if_splits)
    have h1: "c1 \<longleftrightarrow> P dx"
      unfolding P_def using scan_dy_fl_Inr [OF c1] .
    show ?case
    proof (cases c1)
      case True
      then show ?thesis using r h1 by simp
    next
      case False
      then have "scan_dx_fl A g fid x y tol_sq gx gy dxs = Inr c" using r by simp
      from Cons.IH [OF this] show ?thesis using False h1 by simp
    qed
  qed
  then show "scan_dx_fl A g fid x y tol_sq gx gy dxs = Inr c \<Longrightarrow>
   c \<longleftrightarrow> (\<exists>dx \<in> set dxs. \<exists>dy \<in> set [-1, 0, 1].
          \<exists>o3 \<in> set (bucket g (gx + dx, gy + dy)). close_to_fl A fid x y tol_sq o3)"
    unfolding P_def .
qed

lemma near_in_cells_fl_iff:
  "near_in_cells_fl A eps t (fid, x, y, i) \<longleftrightarrow>
     (\<exists>ofid ox oy oi. (ofid, ox, oy, oi) \<in> set eps \<and> ofid \<noteq> fid \<and>
        dist_test A x y ox oy (fl_mul A t t) = Inr True \<and>
        cells_adjacent A (py_max A t (fl_tiny A)) x y ox oy)"
  unfolding near_in_cells_fl_def list_ex_iff by auto

lemma near_other_road_fl_iff:
  "near_other_road_fl A eps t (fid, x, y, i) \<longleftrightarrow>
     (\<exists>ofid ox oy oi. (ofid, ox, oy, oi) \<in> set eps \<and> ofid \<noteq> fid \<and>
        dist_test A x y ox oy (fl_mul A t t) = Inr True)"
  unfolding near_other_road_fl_def list_ex_iff by auto

lemma offset_cases: "\<bar>d :: int\<bar> \<le> 1 \<longleftrightarrow> d \<in> set [-1, 0, 1]"
  by auto

lemma connected_fl_iff:
  assumes inv: "hash_inv_fl A (py_max A t (fl_tiny A)) (g, eps)"
    and key: "grid_key_fl A x y (py_max A t (fl_tiny A)) = Inr (gx, gy)"
    and ret: "scan_dx_fl A g fid x y (fl_mul A t t) gx gy [-1, 0, 1] = Inr c"
  shows "c \<longleftrightarrow> near_in_cells_fl A eps t (fid, x, y, i)"
proof
  let ?cell = "py_max A t (fl_tiny A)"
  assume c
  then obtain dx dy o3 where d0: "dx \<in> set [-1, 0, 1]" "dy \<in> set [-1, 0, 1]"
    and o3: "o3 \<in> set (bucket g (gx + dx, gy + dy))" "close_to_fl A fid x y (fl_mul A t t) o3"
    using scan_dx_fl_Inr [OF ret] by blast
  have d: "\<bar>dx\<bar> \<le> 1" "\<bar>dy\<bar> \<le> 1"
    using d0 unfolding offset_cases by simp_all
  have "bucket g (gx + dx, gy + dy)
          = map strip_index (filter (\<lambda>ep. key_of A ?cell ep = Inr (gx + dx, gy + dy)) eps)"
    using inv by (simp add: hash_inv_fl_def)
  with o3(1) obtain ep where ep: "ep \<in> set eps" "strip_index ep = o3"
    "key_of A ?cell ep = Inr (gx + dx, gy + dy)"
    by auto
  obtain ofid ox oy oi where e4: "ep = (ofid, ox, oy, oi)" by (metis surj_pair)
  have adj: "cells_adjacent A ?cell x y ox oy"
    using key ep(3) d unfolding e4 by (simp add: cells_adjacent_def key_of_def)
  show "near_in_cells_fl A eps t (fid, x, y, i)"
    unfolding near_in_cells_fl_iff
    using ep(1,2) o3(2) adj unfolding e4 by (auto simp: close_to_fl_def strip_index_def)
next
  let ?cell = "py_max A t (fl_tiny A)"
  assume "near_in_cells_fl A eps t (fid, x, y, i)"
  then obtain ofid ox oy oi where o: "(ofid, ox, oy, oi) \<in> set eps" "ofid \<noteq> fid"
    "dist_test A x y ox oy (fl_mul A t t) = Inr True" "cells_adjacent A ?cell x y ox oy"
    unfolding near_in_cells_fl_iff by blast
  from o(4) key obtain hx hy where h: "grid_key_fl A ox oy ?cell = Inr (hx, hy)"
    "\<bar>hx - gx\<bar> \<le> 1" "\<bar>hy - gy\<bar> \<le> 1"
    by (auto simp: cells_adjacent_def split: sum.splits)
  define dx where "dx = hx - gx"
  define dy where "dy = hy - gy"
  have d: "dx \<in> set [-1, 0, 1]" "dy \<in> set [-1, 0, 1]"
    using h(2,3) unfolding dx_def dy_def offset_cases by simp_all
  have k: "key_of A ?cell (ofid, ox, oy, oi) = Inr (gx + dx, gy + dy)"
    using h(1) by (simp add: key_of_def dx_def dy_def)
  have "bucket g (gx + dx, gy + dy)
          = map strip_index (filter (\<lambda>ep. key_of A ?cell ep = Inr (gx + dx, gy + dy)) eps)"
    using inv by (simp add: hash_inv_fl_def)
  then have "(ofid, ox, oy) \<in> set (bucket g (gx + dx, gy + dy))"
    using o(1) k by (force simp: strip_index_def)
  moreover have "close_to_fl A fid x y (fl_mul A t t) (ofid, ox, oy)"
    using o by (simp add: close_to_fl_def)
  ultimately have "\<exists>dx \<in> set [-1, 0, 1]. \<exists>dy \<in> set [-1, 0, 1].
      \<exists>o3 \<in> set (bucket g (gx + dx, gy + dy)). close_to_fl A fid x y (fl_mul A t t) o3"
    using d by blast
  then show c using scan_dx_fl_Inr [OF ret] by simp
qed

lemma check_all_fl:
  assumes inv: "hash_inv_fl A (py_max A t (fl_tiny A)) (g, all)" and sub: "set eps \<subseteq> set all"
    and ret: "for_each (check_endpoint_fl A g (py_max A t (fl_tiny A)) (fl_mul A t t)) eps acc
                = Inr dangles"
  shows "dangles = acc @ filter (\<lambda>ep. \<not> near_in_cells_fl A all t ep) eps"
  using sub ret
proof (induction eps arbitrary: acc)
  case Nil
  then show ?case by simp
next
  case (Cons ep eps)
  obtain fid x y i where ep: "ep = (fid, x, y, i)" by (metis surj_pair)
  from Cons.prems(2) obtain acc1 where
    s1: "check_endpoint_fl A g (py_max A t (fl_tiny A)) (fl_mul A t t) ep acc = Inr acc1"
    and r: "for_each (check_endpoint_fl A g (py_max A t (fl_tiny A)) (fl_mul A t t)) eps acc1
              = Inr dangles"
    by (auto split: sum.splits)
  from s1 obtain gx gy c where
    key: "grid_key_fl A x y (py_max A t (fl_tiny A)) = Inr (gx, gy)"
    and c: "scan_dx_fl A g fid x y (fl_mul A t t) gx gy [-1, 0, 1] = Inr c"
    and a1: "acc1 = (if \<not> c then acc @ [ep] else acc)"
    unfolding check_endpoint_fl_def ep
    by (auto simp del: scan_dx_fl.simps split: sum.splits if_splits)
  have "c \<longleftrightarrow> near_in_cells_fl A all t ep"
    unfolding ep using connected_fl_iff [OF inv key c] .
  then have a2: "acc1 = (if \<not> near_in_cells_fl A all t ep then acc @ [ep] else acc)"
    using a1 by simp
  have rest: "set eps \<subseteq> set all" using Cons.prems(1) by simp
  show ?case
    using Cons.IH [OF rest r] a2 by simp
qed

lemma find_dangles_fl_hash:
  assumes "find_dangles_fl A e t = Inr dangles"
  shows "dangles = hashed_dangles_fl A e t"
proof -
  let ?cell = "py_max A t (fl_tiny A)"
  from assms obtain g eps where
    b: "for_each (\<lambda>(fid, pts). for_each (add_endpoint_fl A ?cell fid) (enumerate 0 pts)) e
          (Map.empty, []) = Inr (g, eps)"
    and c: "for_each (check_endpoint_fl A g ?cell (fl_mul A t t)) eps [] = Inr dangles"
    unfolding find_dangles_fl_def Let_def by (auto split: sum.splits)
  have inv0: "hash_inv_fl A ?cell (Map.empty, [])"
    by (simp add: hash_inv_fl_def bucket_empty)
  have "hash_inv_fl A ?cell (g, eps) \<and> snd (g, eps) = snd (Map.empty :: (int \<times> int) \<rightharpoonup> (int \<times> 'a \<times> 'a) list, [] :: (int \<times> 'a \<times> 'a \<times> nat) list) @ all_endpoints e"
    using build_hash_fl [OF b inv0] .
  then have inv: "hash_inv_fl A ?cell (g, all_endpoints e)" and eps: "eps = all_endpoints e"
    by auto
  show ?thesis
    using check_all_fl [OF inv subset_refl, of "[]" dangles] c
    unfolding eps hashed_dangles_fl_def by simp
qed

lemma near_in_cells_near:
  "near_in_cells_fl A eps t ep \<Longrightarrow> near_other_road_fl A eps t ep"
  by (cases ep) (auto simp: near_in_cells_fl_iff near_other_road_fl_iff)

lemma naive_subset_hashed:
  "set (naive_dangles_fl A e t) \<subseteq> set (hashed_dangles_fl A e t)"
  unfolding hashed_dangles_fl_def naive_dangles_fl_def
  by (auto dest: near_in_cells_near)

lemma no_error_iff: "no_error r \<longleftrightarrow> (\<exists>v. r = Inr v)"
  by (cases r) (simp_all add: no_error_def)

lemma add_road_fl_returns:
  assumes "\<forall>ip \<in> set ips. case ip of (i, (x, y)) \<Rightarrow> no_error (grid_key_fl A x y cell)"
  shows "\<exists>st'. for_each (add_endpoint_fl A cell fid) ips st = Inr st'"
  using assms
proof (induction ips arbitrary: st)
  case Nil
  then show ?case by simp
next
  case (Cons ip ips)
  obtain i x y where ip: "ip = (i, (x, y))" by (metis surj_pair)
  obtain g eps where st: "st = (g, eps)" by (metis surj_pair)
  from Cons.prems obtain k where k: "grid_key_fl A x y cell = Inr k"
    unfolding ip by (auto simp: no_error_iff)
  have s1: "add_endpoint_fl A cell fid ip st
              = Inr (grid_append g k (fid, x, y), eps @ [(fid, x, y, i)])"
    unfolding ip st by (simp add: add_endpoint_fl_def k)
  have "\<forall>ip \<in> set ips. case ip of (i, (x, y)) \<Rightarrow> no_error (grid_key_fl A x y cell)"
    using Cons.prems by simp
  from Cons.IH [OF this] show ?case
    using s1 by simp
qed

lemma build_hash_fl_returns:
  assumes "\<forall>ep \<in> set (all_endpoints e). no_error (key_of A cell ep)"
  shows "\<exists>st'. for_each (\<lambda>(fid, pts). for_each (add_endpoint_fl A cell fid) (enumerate 0 pts)) e st
               = Inr st'"
  using assms
proof (induction e arbitrary: st)
  case Nil
  then show ?case by simp
next
  case (Cons r e)
  obtain fid pts where r: "r = (fid, pts)" by (metis surj_pair)
  have keys: "\<forall>ip \<in> set (enumerate 0 pts). case ip of (i, (x, y)) \<Rightarrow>
                no_error (grid_key_fl A x y cell)"
  proof
    fix ip assume m: "ip \<in> set (enumerate 0 pts)"
    obtain i x y where ip: "ip = (i, (x, y))" by (metis surj_pair)
    have "(fid, x, y, i) \<in> set (all_endpoints (r # e))"
      using m unfolding ip r all_endpoints_def by force
    then have "no_error (key_of A cell (fid, x, y, i))" using Cons.prems by blast
    then show "case ip of (i, (x, y)) \<Rightarrow> no_error (grid_key_fl A x y cell)"
      unfolding ip by (simp add: key_of_def)
  qed
  obtain st1 where s1: "for_each (add_endpoint_fl A cell fid) (enumerate 0 pts) st = Inr st1"
    using add_road_fl_returns [OF keys] by blast
  have "\<forall>ep \<in> set (all_endpoints e). no_error (key_of A cell ep)"
    using Cons.prems by (simp add: all_endpoints_def)
  from Cons.IH [OF this] show ?case
    using s1 by (simp add: r)
qed

lemma scan_bucket_fl_returns:
  assumes "\<forall>o3 \<in> set b. case o3 of (ofid, ox, oy) \<Rightarrow> no_error (dist_test A x y ox oy tol_sq)"
  shows "\<exists>c. scan_bucket_fl A fid x y tol_sq b = Inr c"
  using assms
proof (induction b)
  case Nil
  show ?case by (rule exI [of _ False]) simp
next
  case (Cons o3 b)
  obtain ofid ox oy where o3: "o3 = (ofid, ox, oy)" by (metis surj_pair)
  from Cons.prems obtain c1 where c1: "dist_test A x y ox oy tol_sq = Inr c1"
    unfolding o3 by (auto simp: no_error_iff)
  have "\<forall>o3 \<in> set b. case o3 of (ofid, ox, oy) \<Rightarrow> no_error (dist_test A x y ox oy tol_sq)"
    using Cons.prems by simp
  from Cons.IH [OF this] show ?case
    unfolding o3 using c1 by auto
qed

lemma scan_dy_fl_returns:
  assumes "\<forall>k. \<forall>o3 \<in> set (bucket g k).
             case o3 of (ofid, ox, oy) \<Rightarrow> no_error (dist_test A x y ox oy tol_sq)"
  shows "\<exists>c. scan_dy_fl A g fid x y tol_sq cx gy dys = Inr c"
proof (induction dys)
  case Nil
  show ?case by (rule exI [of _ False]) simp
next
  case (Cons dy dys)
  show ?case
  proof (cases "g (cx, gy + dy)")
    case None
    then show ?thesis using Cons.IH by simp
  next
    case (Some b)
    then have "bucket g (cx, gy + dy) = b" by (simp add: bucket_def)
    then have "\<forall>o3 \<in> set b. case o3 of (ofid, ox, oy) \<Rightarrow>
                 no_error (dist_test A x y ox oy tol_sq)"
      using assms by blast
    from scan_bucket_fl_returns [OF this] obtain c1 where
      "scan_bucket_fl A fid x y tol_sq b = Inr c1" by blast
    then show ?thesis using Cons.IH Some by auto
  qed
qed

lemma scan_dx_fl_returns:
  assumes "\<forall>k. \<forall>o3 \<in> set (bucket g k).
             case o3 of (ofid, ox, oy) \<Rightarrow> no_error (dist_test A x y ox oy tol_sq)"
  shows "\<exists>c. scan_dx_fl A g fid x y tol_sq gx gy dxs = Inr c"
proof (induction dxs)
  case Nil
  show ?case by (rule exI [of _ False]) simp
next
  case (Cons dx dxs)
  obtain c1 where "scan_dy_fl A g fid x y tol_sq (gx + dx) gy [-1, 0, 1] = Inr c1"
    using scan_dy_fl_returns [OF assms] by blast
  then show ?case using Cons.IH by (auto simp del: scan_dy_fl.simps)
qed

lemma check_all_fl_returns:
  assumes inv: "hash_inv_fl A cell (g, all)"
    and tests: "\<forall>ep \<in> set all. \<forall>op \<in> set all.
                  case ep of (fid, x, y, i) \<Rightarrow> case op of (ofid, ox, oy, oi) \<Rightarrow>
                    no_error (dist_test A x y ox oy tol_sq)"
    and sub: "set eps \<subseteq> set all"
  shows "\<exists>dangles. for_each (check_endpoint_fl A g cell tol_sq) eps acc = Inr dangles"
  using sub
proof (induction eps arbitrary: acc)
  case Nil
  then show ?case by simp
next
  case (Cons ep eps)
  obtain fid x y i where ep: "ep = (fid, x, y, i)" by (metis surj_pair)
  have m: "(fid, x, y, i) \<in> set all" using Cons.prems unfolding ep by simp
  then obtain gx gy where key: "grid_key_fl A x y cell = Inr (gx, gy)"
    using inv unfolding hash_inv_fl_def by (fastforce simp: key_of_def)
  have "\<forall>k. \<forall>o3 \<in> set (bucket g k).
          case o3 of (ofid, ox, oy) \<Rightarrow> no_error (dist_test A x y ox oy tol_sq)"
  proof (intro allI ballI)
    fix k o3 assume o3: "o3 \<in> set (bucket g k)"
    have "bucket g k = map strip_index (filter (\<lambda>ep. key_of A cell ep = Inr k) all)"
      using inv by (cases k) (simp add: hash_inv_fl_def)
    with o3 obtain op where op: "op \<in> set all" "strip_index op = o3" by auto
    obtain ofid ox oy oi where o4: "op = (ofid, ox, oy, oi)" by (metis surj_pair)
    have "no_error (dist_test A x y ox oy tol_sq)"
      using tests m op(1) unfolding o4 by fastforce
    then show "case o3 of (ofid, ox, oy) \<Rightarrow> no_error (dist_test A x y ox oy tol_sq)"
      using op(2) unfolding o4 by (auto simp: strip_index_def)
  qed
  from scan_dx_fl_returns [OF this] obtain c where
    c: "scan_dx_fl A g fid x y tol_sq gx gy [-1, 0, 1] = Inr c" by blast
  have s1: "check_endpoint_fl A g cell tol_sq ep acc = Inr (if \<not> c then acc @ [ep] else acc)"
    unfolding check_endpoint_fl_def ep prod.case key sum.case c by simp
  have "set eps \<subseteq> set all" using Cons.prems by simp
  from Cons.IH [OF this] show ?case
    using s1 by simp
qed

lemma find_dangles_fl_returns:
  assumes "raises_nothing A e t"
  shows "\<exists>dangles. find_dangles_fl A e t = Inr dangles"
proof -
  let ?cell = "py_max A t (fl_tiny A)"
  let ?ts = "fl_mul A t t"
  have keys: "\<forall>ep \<in> set (all_endpoints e). no_error (key_of A ?cell ep)"
    using assms unfolding raises_nothing_def Let_def list_all_iff
    by (auto simp: key_of_def)
  have tests: "\<forall>ep \<in> set (all_endpoints e). \<forall>op \<in> set (all_endpoints e).
                 case ep of (fid, x, y, i) \<Rightarrow> case op of (ofid, ox, oy, oi) \<Rightarrow>
                   no_error (dist_test A x y ox oy ?ts)"
    using assms unfolding raises_nothing_def Let_def list_all_iff
    by fastforce
  obtain st' where
    b: "for_each (\<lambda>(fid, pts). for_each (add_endpoint_fl A ?cell fid) (enumerate 0 pts)) e
          (Map.empty, []) = Inr st'"
    using build_hash_fl_returns [OF keys] by blast
  have inv0: "hash_inv_fl A ?cell (Map.empty, [])"
    by (simp add: hash_inv_fl_def bucket_empty)
  have i1: "hash_inv_fl A ?cell st'" and e1: "snd st' = all_endpoints e"
    using build_hash_fl [OF b inv0] by simp_all
  obtain g where st': "st' = (g, all_endpoints e)"
    using e1 by (cases st') simp
  have inv: "hash_inv_fl A ?cell (g, all_endpoints e)" using i1 unfolding st' .
  obtain dangles where
    "for_each (check_endpoint_fl A g ?cell ?ts) (all_endpoints e) [] = Inr dangles"
    using check_all_fl_returns [OF inv tests subset_refl] by blast
  then show ?thesis
    unfolding find_dangles_fl_def Let_def b st' by simp
qed

subsection \<open>Dangles: exact arithmetic\<close>

lemma grid_key_exact: "grid_key_fl exact_arith x y cell = grid_key x y cell"
  by (simp add: grid_key_fl_def grid_key_def exact_arith_def)

lemma add_endpoint_exact: "add_endpoint_fl exact_arith = add_endpoint"
  by (simp add: fun_eq_iff add_endpoint_fl_def add_endpoint_def grid_key_exact)

lemma dist_test_exact:
  "dist_test exact_arith x y ox oy tol_sq = Inr ((x - ox)\<^sup>2 + (y - oy)\<^sup>2 \<le> tol_sq)"
  by (simp add: dist_test_def exact_arith_def)

lemma scan_bucket_exact:
  "scan_bucket_fl exact_arith fid x y tol_sq b = Inr (scan_bucket fid x y tol_sq b)"
  by (induction fid x y tol_sq b rule: scan_bucket.induct) (simp_all add: dist_test_exact)

lemma scan_dy_exact:
  "scan_dy_fl exact_arith g fid x y tol_sq cx gy dys = Inr (scan_dy g fid x y tol_sq cx gy dys)"
  by (induction dys) (simp_all add: scan_bucket_exact split: option.splits)

lemma scan_dx_exact:
  "scan_dx_fl exact_arith g fid x y tol_sq gx gy dxs = Inr (scan_dx g fid x y tol_sq gx gy dxs)"
  by (induction dxs) (simp_all add: scan_dy_exact del: scan_dy.simps scan_dy_fl.simps)

lemma check_endpoint_exact: "check_endpoint_fl exact_arith = check_endpoint"
  by (simp add: fun_eq_iff check_endpoint_fl_def check_endpoint_def grid_key_exact scan_dx_exact
      del: scan_dx.simps scan_dx_fl.simps split: sum.splits prod.splits)

lemma find_dangles_exact: "find_dangles_fl exact_arith e tolerance = find_dangles e tolerance"
proof -
  have m: "py_max exact_arith tolerance (fl_tiny exact_arith) = max tolerance (1 / 10 ^ 9)"
    by (simp add: py_max_def exact_arith_def max_def)
  have t: "fl_mul exact_arith tolerance tolerance = tolerance * tolerance"
    by (simp add: exact_arith_def)
  show ?thesis
    unfolding find_dangles_fl_def find_dangles_def add_endpoint_exact check_endpoint_exact m t ..
qed

lemma naive_dangles_exact: "naive_dangles_fl exact_arith e tolerance = naive_dangles e tolerance"
proof -
  have t: "fl_mul exact_arith tolerance tolerance = tolerance\<^sup>2"
    by (simp add: exact_arith_def power2_eq_square)
  show ?thesis
    unfolding naive_dangles_fl_def naive_dangles_def near_other_road_fl_def near_other_road_def
      dist_test_exact t
    by simp
qed

subsection \<open>Dangles: double arithmetic\<close>

lemma round_half_even_int: "round_half_even (of_int n) = n"
  by (simp add: round_half_even_def)

lemma ulp53_unit:
  assumes "1 \<le> \<bar>x\<bar>" "\<bar>x\<bar> < 2"
  shows "ulp53 x = 1 / 2 ^ 52"
proof -
  have "0 \<le> log 2 \<bar>x\<bar>" using assms(1) by simp
  moreover have "log 2 \<bar>x\<bar> < 1" using assms by (simp add: log_less_iff)
  ultimately have "\<lfloor>log 2 \<bar>x\<bar>\<rfloor> = 0" by linarith
  then have "ulp53 x = 2 powr (- 52)" by (simp add: ulp53_def)
  also have "\<dots> = 1 / 2 ^ 52" by (simp add: powr_minus_divide)
  finally show ?thesis .
qed

lemma rnd53_unit:
  assumes "1 \<le> \<bar>x\<bar>" "\<bar>x\<bar> < 2"
  shows "rnd53 x = of_int (round_half_even (x * 2 ^ 52)) / 2 ^ 52"
proof -
  have "x \<noteq> 0" using assms(1) by auto
  then show ?thesis by (simp add: rnd53_def ulp53_unit [OF assms])
qed

lemma rnd53_int:
  assumes "\<bar>m\<bar> < 2 ^ 53"
  shows "rnd53 (of_int m) = of_int m"
proof (cases "m = 0")
  case True
  then show ?thesis by (simp add: rnd53_def)
next
  case False
  define x :: real where "x = of_int m"
  define e where "e = \<lfloor>log 2 \<bar>x\<bar>\<rfloor>"
  have x1: "1 \<le> \<bar>x\<bar>" using False unfolding x_def by (simp flip: of_int_abs)
  have x2: "\<bar>x\<bar> < 2 ^ 53"
  proof -
    have "real_of_int \<bar>m\<bar> < real_of_int (2 ^ 53)" using assms by (simp only: of_int_less_iff)
    then show ?thesis unfolding x_def by simp
  qed
  have l0: "0 \<le> log 2 \<bar>x\<bar>" using x1 by simp
  have l1: "log 2 \<bar>x\<bar> < 53" using x1 x2 by (simp add: log_less_iff)
  have e0: "0 \<le> e" and e1: "e \<le> 52" using l0 l1 unfolding e_def by linarith+
  define n where "n = nat (52 - e)"
  have en: "real_of_int e - 52 = - real n" using e1 unfolding n_def by simp
  have u: "ulp53 x = 1 / 2 ^ n"
  proof -
    have "max e (- 1022) = e" using e0 by simp
    then have "ulp53 x = 2 powr (real_of_int e - 52)"
      unfolding ulp53_def e_def [symmetric] by simp
    also have "\<dots> = 2 powr (- real n)" unfolding en ..
    also have "\<dots> = 1 / 2 ^ n" by (simp add: powr_minus_divide powr_realpow)
    finally show ?thesis .
  qed
  have q: "x / (1 / 2 ^ n) = of_int (m * 2 ^ n)" by (simp add: x_def)
  have xn: "x \<noteq> 0" using x1 by auto
  have "rnd53 x = of_int (round_half_even (x / ulp53 x)) * ulp53 x"
    using xn by (simp add: rnd53_def)
  also have "\<dots> = of_int (m * 2 ^ n) * (1 / 2 ^ n)"
    unfolding u q round_half_even_int ..
  also have "\<dots> = of_int m" by simp
  finally show ?thesis unfolding x_def .
qed

lemma rnd53_ints:
  "rnd53 0 = 0" "rnd53 1 = 1" "rnd53 2 = 2" "rnd53 3 = 3" "rnd53 4 = 4" "rnd53 5 = 5"
  "rnd53 9 = 9" "rnd53 25 = 25" "rnd53 (- 1) = - 1" "rnd53 (- 2) = - 2" "rnd53 (- 3) = - 3"
  "rnd53 (- 5) = - 5"
  using rnd53_int [of 0] rnd53_int [of 1] rnd53_int [of 2] rnd53_int [of 3] rnd53_int [of 4]
    rnd53_int [of 5] rnd53_int [of 9] rnd53_int [of 25] rnd53_int [of "- 1"] rnd53_int [of "- 2"]
    rnd53_int [of "- 3"] rnd53_int [of "- 5"]
  by simp_all

lemma rnd53_tie_up: "rnd53 (1 + 1 / 2 ^ 53) = 1"
proof -
  have "round_half_even ((1 + 1 / 2 ^ 53) * 2 ^ 52) = 2 ^ 52"
    by (simp add: round_half_even_def Let_def)
  then show ?thesis using rnd53_unit [of "1 + 1 / 2 ^ 53"] by simp
qed

lemma rnd53_tie_down: "rnd53 (- 1 - 1 / 2 ^ 53) = - 1"
proof -
  have "round_half_even ((- 1 - 1 / 2 ^ 53) * 2 ^ 52) = - (2 ^ 52)"
    by (simp add: round_half_even_def Let_def)
  then show ?thesis using rnd53_unit [of "- 1 - 1 / 2 ^ 53"] by simp
qed

lemma rnd53_below_tie_up: "rnd53 (1 + 1 / 2 ^ 54) = 1"
proof -
  have "round_half_even ((1 + 1 / 2 ^ 54) * 2 ^ 52) = 2 ^ 52"
    by (simp add: round_half_even_def Let_def)
  then show ?thesis using rnd53_unit [of "1 + 1 / 2 ^ 54"] by simp
qed

lemma rnd53_below_tie_down: "rnd53 (- 1 - 1 / 2 ^ 54) = - 1"
proof -
  have "round_half_even ((- 1 - 1 / 2 ^ 54) * 2 ^ 52) = - (2 ^ 52)"
    by (simp add: round_half_even_def Let_def)
  then show ?thesis using rnd53_unit [of "- 1 - 1 / 2 ^ 54"] by simp
qed

lemma rnd53_numerals:
  "rnd53 (9007199254740993 / 9007199254740992) = 1"
  "rnd53 (- (9007199254740993 / 9007199254740992)) = - 1"
  "rnd53 (18014398509481985 / 18014398509481984) = 1"
  "rnd53 (- (18014398509481985 / 18014398509481984)) = - 1"
  using rnd53_tie_up rnd53_tie_down rnd53_below_tie_up rnd53_below_tie_down by simp_all

lemmas rnd53_values = rnd53_ints rnd53_numerals

lemmas dangles_eval =
  find_dangles_fl_def naive_dangles_fl_def hashed_dangles_fl_def near_other_road_fl_def
  near_in_cells_fl_def cells_adjacent_def all_endpoints_def add_endpoint_fl_def
  check_endpoint_fl_def grid_key_fl_def dist_test_def py_max_def grid_append_def
  enumerate_eq_zip upt_rec Let_def

lemma double_missed_neighbour:
  "find_dangles_fl double_arith [(1, [(1 - 1 / 2 ^ 53, 0)]), (2, [(2, 0)])] 1
     = Inr [(1, 1 - 1 / 2 ^ 53, 0, 0), (2, 2, 0, 0)]"
  "naive_dangles_fl double_arith [(1, [(1 - 1 / 2 ^ 53, 0)]), (2, [(2, 0)])] 1 = []"
  by (simp_all add: dangles_eval double_arith_def rnd53_values)

lemma double_rounded_test:
  "find_dangles_fl double_arith [(1, [(1 / 2 - 1 / 2 ^ 54, 0)]), (2, [(3 / 2, 0)])] 1 = Inr []"
  "naive_dangles [(1, [(1 / 2 - 1 / 2 ^ 54, 0)]), (2, [(3 / 2, 0)])] 1
     = [(1, 1 / 2 - 1 / 2 ^ 54, 0, 0), (2, 3 / 2, 0, 0)]"
  by (simp_all add: dangles_eval double_arith_def rnd53_values naive_dangles_def
      near_other_road_def power2_eq_square)

lemma double_two_roads:
  "raises_nothing double_arith [(1, [(0, 0), (2, 0)]), (2, [(2, 0), (5, 0)])] 1"
  "find_dangles_fl double_arith [(1, [(0, 0), (2, 0)]), (2, [(2, 0), (5, 0)])] 1
     = Inr [(1, 0, 0, 0), (2, 5, 0, 1)]"
  "hashed_dangles_fl double_arith [(1, [(0, 0), (2, 0)]), (2, [(2, 0), (5, 0)])] 1
     = [(1, 0, 0, 0), (2, 5, 0, 1)]"
  "naive_dangles_fl double_arith [(1, [(0, 0), (2, 0)]), (2, [(2, 0), (5, 0)])] 1
     = [(1, 0, 0, 0), (2, 5, 0, 1)]"
  by (simp_all add: raises_nothing_def no_error_def dangles_eval double_arith_def rnd53_values)

lemma exact_two_roads:
  "naive_dangles [(1, [(0, 0), (1, 0)]), (2, [(1, 0), (3, 0)])] (1 / 2)
     = [(1, 0, 0, 0), (2, 3, 0, 1)]"
  by (simp add: naive_dangles_def all_endpoints_def near_other_road_def enumerate_eq_zip
      upt_rec power2_eq_square)

lemma double_overflow:
  "find_dangles_fl double_arith [(1, [(2 ^ 1000, 0)])] 0 = Inl OverflowError"
  by (simp add: dangles_eval double_arith_def rnd53_values)

text \<open>
  C6, in double arithmetic. Two inputs with one endpoint on each of two roads and
  tolerance \<open>1.0\<close>, the cell then being \<open>1.0\<close>.

  \<^item> \<open>{1: [(0.5 - 2**-54, 0.0)], 2: [(1.5, 0.0)]}\<close>: the two endpoints are
    \<open>1 + 2^-54\<close> apart, more than the tolerance, so both are dangles by the definition;
    \<open>x - ox\<close> is rounded to \<open>-1.0\<close>, the test \<open>1.0 <= 1.0\<close> passes in cells \<open>0\<close> and \<open>1\<close>,
    and \<open>find_dangles\<close> returns no dangle.
  \<^item> \<open>{1: [(1.0 - 2**-53, 0.0)], 2: [(2.0, 0.0)]}\<close>: \<open>x - ox\<close> is rounded to \<open>-1.0\<close>, so
    the test of the code passes between the two endpoints and the search through all
    endpoints finds no dangle; the endpoints are in the cells \<open>0\<close> and \<open>2\<close>, the 3 by 3
    neighbourhood does not reach from one to the other, and \<open>find_dangles\<close> returns
    both.

  With tolerance \<open>0.0\<close> the cell is \<open>1e-9\<close>, and for the single endpoint
  \<open>(2.0 ** 1000, 0.0)\<close> the quotient \<open>x // cell\<close> leaves the range of the doubles:
  \<open>find_dangles\<close> raises \<open>OverflowError\<close> and returns nothing.
\<close>

theorem find_dangles_double_rounding:
  "find_dangles_fl double_arith [(1, [(1 / 2 - 1 / 2 ^ 54, 0)]), (2, [(3 / 2, 0)])] 1 = Inr []
   \<and> naive_dangles [(1, [(1 / 2 - 1 / 2 ^ 54, 0)]), (2, [(3 / 2, 0)])] 1
       = [(1, 1 / 2 - 1 / 2 ^ 54, 0, 0), (2, 3 / 2, 0, 0)]
   \<and> find_dangles_fl double_arith [(1, [(1 - 1 / 2 ^ 53, 0)]), (2, [(2, 0)])] 1
       = Inr [(1, 1 - 1 / 2 ^ 53, 0, 0), (2, 2, 0, 0)]
   \<and> naive_dangles_fl double_arith [(1, [(1 - 1 / 2 ^ 53, 0)]), (2, [(2, 0)])] 1 = []
   \<and> find_dangles_fl double_arith [(1, [(2 ^ 1000, 0)])] 0 = Inl OverflowError"
  by (intro conjI double_rounded_test double_missed_neighbour double_overflow)

text \<open>
  C6, amended. In every float arithmetic \<open>A\<close>, for every mapping of roads to endpoints
  and every tolerance:

  \<^item> if no cell key of an endpoint and no test between two endpoints raises, then
    \<open>find_dangles\<close> returns;
  \<^item> whenever \<open>find_dangles\<close> returns, it returns, in the order of the input, exactly the
    endpoints \<open>(road_fid, x, y, endpoint_index)\<close> for which no endpoint of a different
    road both passes the test \<open>(x - ox) ** 2 + (y - oy) ** 2 <= tolerance * tolerance\<close>
    as \<open>A\<close> evaluates it and has its cell at most one column and one row away; so it
    returns every endpoint against which no endpoint of a different road passes the
    test.

  In exact arithmetic the program is \<open>find_dangles\<close> over the reals, and for a tolerance
  \<open>\<ge> 0\<close> it returns exactly the endpoints for which no endpoint of a different road lies
  within squared distance \<open>tolerance\<^sup>2\<close>, the comparison being \<open>\<le>\<close>: the 3 by 3
  neighbourhood with cells of side \<open>max(tolerance, 1e-9)\<close> misses no such neighbour, and
  of two endpoints of different roads within the tolerance of each other neither is
  returned.
\<close>

theorem find_dangles_hash_neighbourhood:
  "(raises_nothing A endpoints_by_road tolerance \<longrightarrow>
      (\<exists>dangles. find_dangles_fl A endpoints_by_road tolerance = Inr dangles))
   \<and> (\<forall>dangles. find_dangles_fl A endpoints_by_road tolerance = Inr dangles \<longrightarrow>
          dangles = hashed_dangles_fl A endpoints_by_road tolerance
        \<and> set (naive_dangles_fl A endpoints_by_road tolerance) \<subseteq> set dangles)
   \<and> find_dangles_fl exact_arith roads tol = find_dangles roads tol
   \<and> naive_dangles_fl exact_arith roads tol = naive_dangles roads tol
   \<and> (0 \<le> tol \<longrightarrow>
          find_dangles roads tol = Inr (naive_dangles roads tol)
        \<and> (\<forall>fa xa ya ia fb xb yb ib.
              (fa, xa, ya, ia) \<in> set (all_endpoints roads) \<and>
              (fb, xb, yb, ib) \<in> set (all_endpoints roads) \<and>
              fa \<noteq> fb \<and> (xa - xb)\<^sup>2 + (ya - yb)\<^sup>2 \<le> tol\<^sup>2 \<longrightarrow>
              (fa, xa, ya, ia) \<notin> set (naive_dangles roads tol) \<and>
              (fb, xb, yb, ib) \<notin> set (naive_dangles roads tol)))"
proof (intro conjI allI impI)
  assume "raises_nothing A endpoints_by_road tolerance"
  then show "\<exists>dangles. find_dangles_fl A endpoints_by_road tolerance = Inr dangles"
    by (rule find_dangles_fl_returns)
next
  fix dangles
  assume r: "find_dangles_fl A endpoints_by_road tolerance = Inr dangles"
  show h: "dangles = hashed_dangles_fl A endpoints_by_road tolerance"
    using r by (rule find_dangles_fl_hash)
  show "set (naive_dangles_fl A endpoints_by_road tolerance) \<subseteq> set dangles"
    unfolding h by (rule naive_subset_hashed)
next
  show "find_dangles_fl exact_arith roads tol = find_dangles roads tol"
    by (rule find_dangles_exact)
next
  show "naive_dangles_fl exact_arith roads tol = naive_dangles roads tol"
    by (rule naive_dangles_exact)
next
  assume "0 \<le> tol"
  then show "find_dangles roads tol = Inr (naive_dangles roads tol)"
    by (rule find_dangles_naive)
next
  fix fa xa ya ia fb xb yb ib
  assume h: "(fa, xa, ya, ia) \<in> set (all_endpoints roads) \<and>
             (fb, xb, yb, ib) \<in> set (all_endpoints roads) \<and>
             fa \<noteq> fb \<and> (xa - xb)\<^sup>2 + (ya - yb)\<^sup>2 \<le> tol\<^sup>2"
  show "(fa, xa, ya, ia) \<notin> set (naive_dangles roads tol)"
    using h by (intro close_pair_not_dangles(1) [of fa xa ya ia _ fb xb yb ib]) simp_all
  show "(fb, xb, yb, ib) \<notin> set (naive_dangles roads tol)"
    using h by (intro close_pair_not_dangles(2) [of fa xa ya ia _ fb xb yb ib]) simp_all
qed

theorem find_dangles_hash_neighbourhood_witness:
  "raises_nothing double_arith [(1, [(0, 0), (2, 0)]), (2, [(2, 0), (5, 0)])] 1
   \<and> find_dangles_fl double_arith [(1, [(0, 0), (2, 0)]), (2, [(2, 0), (5, 0)])] 1
       = Inr [(1, 0, 0, 0), (2, 5, 0, 1)]
   \<and> hashed_dangles_fl double_arith [(1, [(0, 0), (2, 0)]), (2, [(2, 0), (5, 0)])] 1
       = [(1, 0, 0, 0), (2, 5, 0, 1)]
   \<and> naive_dangles_fl double_arith [(1, [(0, 0), (2, 0)]), (2, [(2, 0), (5, 0)])] 1
       = [(1, 0, 0, 0), (2, 5, 0, 1)]
   \<and> (0 :: real) \<le> 1 / 2
   \<and> find_dangles_fl exact_arith [(1, [(0, 0), (1, 0)]), (2, [(1, 0), (3, 0)])] (1 / 2)
       = Inr [(1, 0, 0, 0), (2, 3, 0, 1)]
   \<and> naive_dangles [(1, [(0, 0), (1, 0)]), (2, [(1, 0), (3, 0)])] (1 / 2)
       = [(1, 0, 0, 0), (2, 3, 0, 1)]"
proof -
  have h: "(0 :: real) \<le> 1 / 2" by simp
  show ?thesis
    using h double_two_roads exact_two_roads
      find_dangles_hash_neighbourhood
        [where A = double_arith
           and endpoints_by_road = "[(1, [(0, 0), (2, 0)]), (2, [(2, 0), (5, 0)])]"
           and tolerance = 1
           and roads = "[(1, [(0, 0), (1, 0)]), (2, [(1, 0), (3, 0)])]"
           and tol = "1 / 2"]
    by simp
qed

subsection \<open>Disconnected roads\<close>









subsection \<open>Self-intersections\<close>

text \<open>
  The test of \<open>_segments_cross\<close> is sound over the reals: when it answers true the two
  closed segments have a point in common. So a part in which no two segments at index
  distance \<open>\<ge> 2\<close> have a point in common is never reported; every simple open
  polyline is such a part.
\<close>

lemma endpoints_on_segment:
  "on_closed_segment p q p" "on_closed_segment p q q"
proof -
  show "on_closed_segment p q p"
    unfolding on_closed_segment_def by (rule exI [of _ 0]) simp
  show "on_closed_segment p q q"
    unfolding on_closed_segment_def by (rule exI [of _ 1]) simp
qed

lemma collinear_in_box:
  assumes z: "cross2d c1 c2 e1 e2 a1 a2 = 0" and box: "on_segment c1 c2 a1 a2 e1 e2"
  shows "on_closed_segment (c1, c2) (e1, e2) (a1, a2)"
proof -
  have cr: "(e1 - c1) * (a2 - c2) = (e2 - c2) * (a1 - c1)"
    using z by (simp add: cross2d_def)
  have b1: "min c1 e1 \<le> a1" "a1 \<le> max c1 e1" and b2: "min c2 e2 \<le> a2" "a2 \<le> max c2 e2"
    using box by (simp_all add: on_segment_def)
  consider "e1 \<noteq> c1" | "e1 = c1" "e2 \<noteq> c2" | "e1 = c1" "e2 = c2" by blast
  then show ?thesis
  proof cases
    case 1
    define t where "t = (a1 - c1) / (e1 - c1)"
    have t: "0 \<le> t" "t \<le> 1"
      using 1 b1 unfolding t_def by (auto simp: field_simps min_def max_def split: if_splits)
    have x: "a1 = c1 + t * (e1 - c1)" using 1 by (simp add: t_def)
    have tt: "t * (e1 - c1) = a1 - c1" using 1 by (simp add: t_def)
    have "(e1 - c1) * (t * (e2 - c2)) = (t * (e1 - c1)) * (e2 - c2)"
      by (simp only: mult.assoc mult.left_commute)
    also have "\<dots> = (a1 - c1) * (e2 - c2)" by (simp only: tt)
    also have "\<dots> = (e1 - c1) * (a2 - c2)" using cr by (simp only: mult.commute)
    finally have "(e1 - c1) * (t * (e2 - c2)) = (e1 - c1) * (a2 - c2)" .
    then have "t * (e2 - c2) = a2 - c2" using 1 by simp
    then have y: "a2 = c2 + t * (e2 - c2)" by linarith
    show ?thesis unfolding on_closed_segment_def using t x y by auto
  next
    case 2
    define t where "t = (a2 - c2) / (e2 - c2)"
    have t: "0 \<le> t" "t \<le> 1"
      using 2 b2 unfolding t_def by (auto simp: field_simps min_def max_def split: if_splits)
    have y: "a2 = c2 + t * (e2 - c2)" using 2 by (simp add: t_def)
    have x: "a1 = c1 + t * (e1 - c1)" using 2 b1 by simp
    show ?thesis unfolding on_closed_segment_def using t x y by auto
  next
    case 3
    then have "a1 = c1" "a2 = c2" using b1 b2 by simp_all
    then show ?thesis using endpoints_on_segment(1) [of "(c1, c2)" "(e1, e2)"] by simp
  qed
qed

lemma proper_crossing:
  fixes a1 a2 b1 b2 c1 c2 e1 e2 :: real
  defines "d1 \<equiv> cross2d c1 c2 e1 e2 a1 a2" and "d2 \<equiv> cross2d c1 c2 e1 e2 b1 b2"
    and "d3 \<equiv> cross2d a1 a2 b1 b2 c1 c2" and "d4 \<equiv> cross2d a1 a2 b1 b2 e1 e2"
  assumes s12: "(d1 > 0 \<and> d2 < 0) \<or> (d1 < 0 \<and> d2 > 0)"
    and s34: "(d3 > 0 \<and> d4 < 0) \<or> (d3 < 0 \<and> d4 > 0)"
  shows "segments_meet (a1, a2) (b1, b2) (c1, c2) (e1, e2)"
proof -
  define D where "D = d1 - d2"
  have D34: "d3 - d4 = - D"
    unfolding D_def d1_def d2_def d3_def d4_def cross2d_def by (simp add: algebra_simps)
  have D0: "D \<noteq> 0" using s12 unfolding D_def by auto
  define t where "t = d1 / D"
  define u where "u = d3 / (d3 - d4)"
  have t: "0 \<le> t" "t \<le> 1"
    using s12 unfolding t_def D_def by (auto simp: field_simps)
  have u: "0 \<le> u" "u \<le> 1"
    using s34 unfolding u_def by (auto simp: field_simps)
  have u': "u = - d3 / D" unfolding u_def D34 by simp
  have id1: "D * (a1 - c1) + d1 * (b1 - a1) + d3 * (e1 - c1) = 0"
    unfolding D_def d1_def d2_def d3_def cross2d_def by (simp add: algebra_simps)
  have id2: "D * (a2 - c2) + d1 * (b2 - a2) + d3 * (e2 - c2) = 0"
    unfolding D_def d1_def d2_def d3_def cross2d_def by (simp add: algebra_simps)
  have Dt: "D * t = d1" and Du: "D * u = - d3"
    using D0 by (simp_all add: t_def u')
  have "D * (a1 + t * (b1 - a1)) = D * a1 + (D * t) * (b1 - a1)"
    and "D * (c1 + u * (e1 - c1)) = D * c1 + (D * u) * (e1 - c1)"
    by (simp_all add: algebra_simps)
  then have "D * (a1 + t * (b1 - a1)) = D * (c1 + u * (e1 - c1))"
    using id1 unfolding Dt Du by (simp add: algebra_simps)
  then have x: "a1 + t * (b1 - a1) = c1 + u * (e1 - c1)" using D0 by simp
  have "D * (a2 + t * (b2 - a2)) = D * a2 + (D * t) * (b2 - a2)"
    and "D * (c2 + u * (e2 - c2)) = D * c2 + (D * u) * (e2 - c2)"
    by (simp_all add: algebra_simps)
  then have "D * (a2 + t * (b2 - a2)) = D * (c2 + u * (e2 - c2))"
    using id2 unfolding Dt Du by (simp add: algebra_simps)
  then have y: "a2 + t * (b2 - a2) = c2 + u * (e2 - c2)" using D0 by simp
  have "on_closed_segment (a1, a2) (b1, b2) (a1 + t * (b1 - a1), a2 + t * (b2 - a2))"
    unfolding on_closed_segment_def using t by auto
  moreover have "on_closed_segment (c1, c2) (e1, e2) (a1 + t * (b1 - a1), a2 + t * (b2 - a2))"
    unfolding on_closed_segment_def x y using u by auto
  ultimately show ?thesis unfolding segments_meet_def by blast
qed

lemma segments_cross_sound:
  assumes "segments_cross p1 q1 p2 q2"
  shows "segments_meet p1 q1 p2 q2"
proof -
  obtain a1 a2 where p1: "p1 = (a1, a2)" by (metis surj_pair)
  obtain b1 b2 where q1: "q1 = (b1, b2)" by (metis surj_pair)
  obtain c1 c2 where p2: "p2 = (c1, c2)" by (metis surj_pair)
  obtain e1 e2 where q2: "q2 = (e1, e2)" by (metis surj_pair)
  let ?d1 = "cross2d c1 c2 e1 e2 a1 a2" and ?d2 = "cross2d c1 c2 e1 e2 b1 b2"
  let ?d3 = "cross2d a1 a2 b1 b2 c1 c2" and ?d4 = "cross2d a1 a2 b1 b2 e1 e2"
  from assms consider
      "((?d1 > 0 \<and> ?d2 < 0) \<or> (?d1 < 0 \<and> ?d2 > 0)) \<and> ((?d3 > 0 \<and> ?d4 < 0) \<or> (?d3 < 0 \<and> ?d4 > 0))"
    | "?d1 = 0" "on_segment c1 c2 a1 a2 e1 e2"
    | "?d2 = 0" "on_segment c1 c2 b1 b2 e1 e2"
    | "?d3 = 0" "on_segment a1 a2 c1 c2 b1 b2"
    | "?d4 = 0" "on_segment a1 a2 e1 e2 b1 b2"
    unfolding segments_cross_def Let_def p1 q1 p2 q2 fst_conv snd_conv
    by (auto split: if_splits)
  then show ?thesis
  proof cases
    case 1
    then show ?thesis unfolding p1 q1 p2 q2 using proper_crossing by blast
  next
    case 2
    then show ?thesis
      unfolding p1 q1 p2 q2 segments_meet_def
      using collinear_in_box endpoints_on_segment(1) by blast
  next
    case 3
    then show ?thesis
      unfolding p1 q1 p2 q2 segments_meet_def
      using collinear_in_box endpoints_on_segment(2) by blast
  next
    case 4
    then show ?thesis
      unfolding p1 q1 p2 q2 segments_meet_def
      using collinear_in_box endpoints_on_segment(1) by blast
  next
    case 5
    then show ?thesis
      unfolding p1 q1 p2 q2 segments_meet_def
      using collinear_in_box endpoints_on_segment(2) by blast
  qed
qed

lemma scan_j_none:
  assumes "\<forall>j \<in> set js. \<not> segments_cross (part ! i) (part ! (i + 1)) (part ! j) (part ! (j + 1))"
  shows "scan_j part i js = None"
  using assms by (induction js) simp_all

lemma scan_i_none:
  assumes "\<forall>i \<in> set is. scan_j part i [i + 2 ..< length part - 1] = None"
  shows "scan_i part is = None"
  using assms by (induction "is") simp_all

lemma apart_scan:
  assumes "apart part"
  shows "scan_i part [0 ..< length part - 1] = None"
proof (rule scan_i_none, rule ballI, rule scan_j_none, rule ballI)
  fix i j
  assume "j \<in> set [i + 2 ..< length part - 1]"
  then have "i + 2 \<le> j" "j + 1 < length part" by auto
  then have "\<not> segments_meet (part ! i) (part ! (i + 1)) (part ! j) (part ! (j + 1))"
    using assms unfolding apart_def by blast
  then show "\<not> segments_cross (part ! i) (part ! (i + 1)) (part ! j) (part ! (j + 1))"
    using segments_cross_sound by blast
qed

lemma apart_parts:
  assumes "\<forall>part \<in> set parts. apart part"
  shows "scan_parts parts = None"
  using assms by (induction parts) (simp_all add: apart_scan del: One_nat_def)

lemma apart_not_reported:
  assumes "\<forall>(fid, parts) \<in> set vertices_by_road. \<forall>part \<in> set parts. apart part"
  shows "find_self_intersections vertices_by_road = []"
  using assms unfolding find_self_intersections_def
  by (induction vertices_by_road) (auto simp: apart_parts)

text \<open>
  C8, at a closed ring. The triangle \<open>(0,0) (1,0) (0,1) (0,0)\<close> is a simple closed
  polyline: its first and last segments meet only in the closing vertex. The scan
  compares segment 0 with segment 2 (\<open>j = i + 2\<close>), \<open>_segments_cross\<close> answers true for
  the shared vertex (\<open>d1 = 0\<close> and the vertex lies in the box of the other segment), and
  the road is reported with the closing vertex as its crossing point. An open simple
  path of four vertices is not reported, and the crossing path of the specification's
  scenario is.
\<close>

theorem find_self_intersections_closed_ring:
  "find_self_intersections [(1, [[(0, 0), (1, 0), (0, 1), (0, 0)]])] = [(1, 0, 0)]
   \<and> segments_cross (0, 0) (1, 0) (0, 1) (0, 0)
   \<and> find_self_intersections [(1, [[(0, 0), (1, 0), (1, 1), (0, 1)]])] = []
   \<and> find_self_intersections [(1, [[(0, 0), (2, 2), (0, 2), (2, 0)]])] = [(1, 1, 1)]"
  by (simp add: find_self_intersections_def upt_rec segments_cross_def cross2d_def
      on_segment_def intersection_point_def)

subsection \<open>The example inputs\<close>

lemma example_geometry_facts:
  "\<not> is_geometry_null (Some unit_square)" "\<not> is_geometry_null (Some shifted_square)"
  "get_geometry_extent (Some unit_square) = Some (0, 0, 1, 1)"
  "get_geometry_extent (Some shifted_square) = Some (1/2, 1/2, 3/2, 3/2)"
  "get_geometry_area (Some unit_square) = 1" "get_geometry_area (Some shifted_square) = 1"
  "validate_polygon_geometry (Some unit_square)" "validate_polygon_geometry (Some shifted_square)"
  by (simp_all add: is_geometry_null_def get_geometry_extent_def get_geometry_area_def
      validate_polygon_geometry_def unit_square_def shifted_square_def)

lemma example_cell_keys:
  "cell_keys 20 (0, 0, 1, 1) = Inr [(0, 0)]" "cell_keys 20 (1/2, 1/2, 3/2, 3/2) = Inr [(0, 0)]"
  "cell_keys (- 1) (0, 0, 1, 1) = Inr []"
  by (simp_all add: cell_keys_def)

lemma example_intersection:
  "get_intersection_geometry quarter_intersect (Some unit_square) (Some shifted_square) 4
     = Some \<lparr>gtype = Polygon, pointCount = 5, area = 1/4, glength = 2,
             gextent = Some (1/2, 1/2, 1, 1)\<rparr>"
  "get_intersection_geometry quarter_intersect (Some shifted_square) (Some unit_square) 4
     = Some \<lparr>gtype = Polygon, pointCount = 5, area = 1/4, glength = 2,
             gextent = Some (1/2, 1/2, 1, 1)\<rparr>"
  "get_intersection_geometry quarter_intersect (Some unit_square) (Some unit_square) 4
     = Some \<lparr>gtype = Polygon, pointCount = 5, area = 1/4, glength = 2,
             gextent = Some (1/2, 1/2, 1, 1)\<rparr>"
  "get_geometry_area (Some \<lparr>gtype = Polygon, pointCount = 5, area = 1/4, glength = 2,
             gextent = Some (1/2, 1/2, 1, 1)\<rparr>) = 1/4"
  by (simp_all add: get_intersection_geometry_def example_geometry_facts quarter_intersect_def
      get_geometry_area_def is_geometry_null_def)
    (simp_all add: unit_square_def shifted_square_def)

subsection \<open>Grid index\<close>

lemma cell_keys_Inr: "c \<noteq> 0 \<Longrightarrow> cell_keys c ext = Inr (keys_of c ext)"
  by (cases ext) (simp add: cell_keys_def keys_of_def)

lemma bucket_fold_append:
  "set (bucket (fold (\<lambda>key g. grid_append g key fid) keys g) k) =
     set (bucket g k) \<union> (if k \<in> set keys then {fid} else {})"
  by (induction keys arbitrary: g) (auto simp: bucket_grid_append)

lemma insert_index_Inr:
  assumes "cell_size s \<noteq> 0"
  shows "insert_index s fid geom =
           Inr (case get_geometry_extent geom of
                  None \<Rightarrow> s
                | Some ext \<Rightarrow>
                    s\<lparr>geometries := (geometries s)(fid \<mapsto> geom),
                      extents := (extents s)(fid \<mapsto> ext),
                      grid := fold (\<lambda>key g. grid_append g key fid)
                                (keys_of (cell_size s) ext) (grid s)\<rparr>)"
  using assms
  by (auto simp: insert_index_def cell_keys_Inr get_geometry_extent_def split: option.splits)

lemma insert_index_cell_size:
  "insert_index s fid geom = Inr s' \<Longrightarrow> cell_size s' = cell_size s"
  by (auto simp: insert_index_def split: if_splits option.splits sum.splits)

lemma insert_index_sound:
  assumes "cell_size s \<noteq> 0" "idx_sound s" "insert_index s fid geom = Inr s'"
  shows "idx_sound s'"
  using assms(2,3) unfolding insert_index_Inr [OF assms(1)] idx_sound_def
  by (auto simp: bucket_fold_append split: option.splits if_splits)

lemma insert_index_dom:
  assumes "cell_size s \<noteq> 0" "idx_dom s" "insert_index s fid geom = Inr s'"
  shows "idx_dom s'"
  using assms(2,3) unfolding insert_index_Inr [OF assms(1)] idx_dom_def
  by (auto simp: bucket_fold_append split: option.splits if_splits)

lemma build_index_returns:
  assumes "cell_size s0 \<noteq> 0"
  shows "\<exists>s. for_each insert_feature fs s0 = Inr s"
  using assms
proof (induction fs arbitrary: s0)
  case Nil
  then show ?case by simp
next
  case (Cons f fs)
  obtain fid geom where f: "f = (fid, geom)" by (metis surj_pair)
  obtain s1 where s1: "insert_index s0 fid geom = Inr s1"
    using insert_index_Inr [OF Cons.prems] by blast
  have "cell_size s1 \<noteq> 0" using insert_index_cell_size [OF s1] Cons.prems by simp
  from Cons.IH [OF this] show ?case by (simp add: f insert_feature_def s1)
qed

lemma insert_index_inv:
  assumes "cell_size s = c" "c \<noteq> 0" "insert_index s fid geom = Inr s'"
  shows "cell_size s' = c \<and> (idx_sound s \<longrightarrow> idx_sound s') \<and> (idx_dom s \<longrightarrow> idx_dom s')"
  using assms insert_index_cell_size [OF assms(3)] insert_index_sound [of s fid geom s']
    insert_index_dom [of s fid geom s']
  by blast

lemma build_index_inv:
  assumes "for_each insert_feature fs s0 = Inr s" "cell_size s0 \<noteq> 0"
  shows "cell_size s = cell_size s0 \<and> (idx_sound s0 \<longrightarrow> idx_sound s) \<and> (idx_dom s0 \<longrightarrow> idx_dom s)"
proof (rule for_each_invariant [OF assms(1),
      of "\<lambda>t. cell_size t = cell_size s0 \<and> (idx_sound s0 \<longrightarrow> idx_sound t) \<and> (idx_dom s0 \<longrightarrow> idx_dom t)"])
  show "cell_size s0 = cell_size s0 \<and> (idx_sound s0 \<longrightarrow> idx_sound s0) \<and> (idx_dom s0 \<longrightarrow> idx_dom s0)"
    by simp
next
  fix x t t'
  assume t: "cell_size t = cell_size s0 \<and> (idx_sound s0 \<longrightarrow> idx_sound t) \<and> (idx_dom s0 \<longrightarrow> idx_dom t)"
    and step: "insert_feature x t = Inr t'"
  obtain fid geom where x: "x = (fid, geom)" by (metis surj_pair)
  have "insert_index t fid geom = Inr t'" using step by (simp add: x insert_feature_def)
  from insert_index_inv [OF _ assms(2) this, of ] t
  show "cell_size t' = cell_size s0 \<and> (idx_sound s0 \<longrightarrow> idx_sound t') \<and> (idx_dom s0 \<longrightarrow> idx_dom t')"
    by blast
qed

lemma empty_index_inv: "idx_sound (SpatialIndex c)" "idx_dom (SpatialIndex c)"
  by (simp_all add: idx_sound_def idx_dom_def SpatialIndex_def bucket_empty)

lemma query_candidates_set:
  assumes "cell_size s \<noteq> 0" "\<And>xs. set (set_iter xs) = set xs"
  shows "\<exists>cands. query_candidates set_iter s fid = Inr cands \<and>
           set cands = (case extents s fid of
                          None \<Rightarrow> {}
                        | Some ext \<Rightarrow>
                            (\<Union>k \<in> set (keys_of (cell_size s) ext). set (bucket (grid s) k)) - {fid})"
  using assms
  by (auto simp: query_candidates_def cell_keys_Inr bucket_def split: option.splits)

lemma shared_key:
  assumes c: "0 < c" and va: "valid_extent ea" and vb: "valid_extent eb"
    and x: "extents_intersect ea eb"
  shows "\<exists>k. k \<in> set (keys_of c ea) \<and> k \<in> set (keys_of c eb)"
proof -
  obtain a0 a1 a2 a3 where ea: "ea = (a0, a1, a2, a3)" by (metis surj_pair)
  obtain b0 b1 b2 b3 where eb: "eb = (b0, b1, b2, b3)" by (metis surj_pair)
  define px where "px = max a0 b0"
  define py where "py = max a1 b1"
  have px: "a0 \<le> px" "px \<le> a2" "b0 \<le> px" "px \<le> b2"
    and py: "a1 \<le> py" "py \<le> a3" "b1 \<le> py" "py \<le> b3"
    using va vb x unfolding ea eb px_def py_def
    by (auto simp: valid_extent_def extents_intersect_def)
  have m: "\<And>u v :: real. u \<le> v \<Longrightarrow> \<lfloor>u / c\<rfloor> \<le> \<lfloor>v / c\<rfloor>"
    using c by (simp add: floor_mono divide_right_mono)
  have "(\<lfloor>px / c\<rfloor>, \<lfloor>py / c\<rfloor>) \<in> set (keys_of c ea)"
    unfolding ea keys_of_def using m [OF px(1)] m [OF px(2)] m [OF py(1)] m [OF py(2)] by simp
  moreover have "(\<lfloor>px / c\<rfloor>, \<lfloor>py / c\<rfloor>) \<in> set (keys_of c eb)"
    unfolding eb keys_of_def using m [OF px(3)] m [OF px(4)] m [OF py(3)] m [OF py(4)] by simp
  ultimately show ?thesis by blast
qed

lemma candidates_sound:
  assumes c: "0 < c"
    and build: "for_each insert_feature inserted (SpatialIndex c) = Inr s"
    and a: "extents s a = Some ea" and b: "extents s b = Some eb" and ne: "a \<noteq> b"
    and va: "valid_extent ea" and vb: "valid_extent eb" and x: "extents_intersect ea eb"
    and iter: "\<And>xs. set (set_iter xs) = set xs"
  shows "\<exists>cands. query_candidates set_iter s a = Inr cands \<and> b \<in> set cands"
proof -
  have c0: "cell_size (SpatialIndex c) \<noteq> 0" using c by (simp add: SpatialIndex_def)
  have cs: "cell_size s = c"
    using build_index_inv [OF build c0] by (simp add: SpatialIndex_def)
  have snd: "idx_sound s"
    using build_index_inv [OF build c0] empty_index_inv by blast
  obtain k where k: "k \<in> set (keys_of c ea)" "k \<in> set (keys_of c eb)"
    using shared_key [OF c va vb x] by blast
  have "b \<in> set (bucket (grid s) k)"
    using snd b k(2) cs unfolding idx_sound_def by blast
  moreover obtain cands where "query_candidates set_iter s a = Inr cands"
    "set cands = (\<Union>k \<in> set (keys_of (cell_size s) ea). set (bucket (grid s) k)) - {a}"
    using query_candidates_set [of s set_iter a] iter cs c a by auto
  ultimately show ?thesis using k(1) ne cs by auto
qed

lemma build_index_keys:
  assumes "for_each insert_feature fs s0 = Inr s"
    and "\<forall>fid. extents s0 fid \<noteq> None \<longrightarrow> fid \<in> fst ` set fs"
  shows "\<forall>fid. extents s fid \<noteq> None \<longrightarrow> fid \<in> fst ` set fs"
proof (rule for_each_invariant [OF assms(1)])
  show "\<forall>fid. extents s0 fid \<noteq> None \<longrightarrow> fid \<in> fst ` set fs" by (rule assms(2))
next
  fix x t t'
  assume x: "x \<in> set fs" and t: "\<forall>fid. extents t fid \<noteq> None \<longrightarrow> fid \<in> fst ` set fs"
    and step: "insert_feature x t = Inr t'"
  obtain f geom where xf: "x = (f, geom)" by (metis surj_pair)
  have f: "f \<in> fst ` set fs" using x xf by force
  have "extents t' fid = extents t fid \<or> fid = f" for fid
    using step unfolding xf insert_feature_def insert_index_def
    by (auto split: if_splits option.splits sum.splits)
  then show "\<forall>fid. extents t' fid \<noteq> None \<longrightarrow> fid \<in> fst ` set fs"
    using t f by metis
qed

lemma insert_index_extents_other:
  "insert_index s fid geom = Inr s' \<Longrightarrow> fid' \<noteq> fid \<Longrightarrow> extents s' fid' = extents s fid'"
  unfolding insert_index_def by (auto split: if_splits option.splits sum.splits)

lemma insert_index_exact:
  assumes c: "cell_size s \<noteq> 0" and ex: "idx_exact s" and fresh: "extents s fid = None"
    and step: "insert_index s fid geom = Inr s'"
  shows "idx_exact s'"
proof (cases "get_geometry_extent geom")
  case None
  then have "s' = s" using step unfolding insert_index_Inr [OF c] by simp
  then show ?thesis using ex by simp
next
  case (Some ext)
  have s': "s' = s\<lparr>geometries := (geometries s)(fid \<mapsto> geom),
                   extents := (extents s)(fid \<mapsto> ext),
                   grid := fold (\<lambda>key g. grid_append g key fid)
                             (keys_of (cell_size s) ext) (grid s)\<rparr>"
    using step unfolding insert_index_Inr [OF c] by (simp add: Some)
  have nob: "fid \<notin> set (bucket (grid s) k)" for k
    using ex [unfolded idx_exact_def, rule_format, of fid k] fresh by simp
  show ?thesis
    unfolding idx_exact_def
  proof (intro allI)
    fix f k
    show "f \<in> set (bucket (grid s') k) \<longleftrightarrow>
            (\<exists>e. extents s' f = Some e \<and> k \<in> set (keys_of (cell_size s') e))"
    proof (cases "f = fid")
      case True
      then show ?thesis using nob [of k] by (simp add: s' bucket_fold_append)
    next
      case False
      then show ?thesis
        using ex [unfolded idx_exact_def, rule_format, of f k]
        by (simp add: s' bucket_fold_append)
    qed
  qed
qed

lemma build_index_exact:
  assumes "distinct (map fst fs)" "cell_size s0 \<noteq> 0" "idx_exact s0"
    and "\<forall>fid \<in> fst ` set fs. extents s0 fid = None"
    and "for_each insert_feature fs s0 = Inr s"
  shows "idx_exact s"
  using assms
proof (induction fs arbitrary: s0)
  case Nil
  then show ?case by simp
next
  case (Cons f fs)
  obtain fid geom where f: "f = (fid, geom)" by (metis surj_pair)
  obtain s1 where s1: "insert_index s0 fid geom = Inr s1"
    and rest: "for_each insert_feature fs s1 = Inr s"
    using Cons.prems(5) by (auto simp: f insert_feature_def split: sum.splits)
  have fresh: "extents s0 fid = None" using Cons.prems(4) by (simp add: f)
  have e1: "idx_exact s1" by (rule insert_index_exact [OF Cons.prems(2,3) fresh s1])
  have c1: "cell_size s1 \<noteq> 0" using insert_index_cell_size [OF s1] Cons.prems(2) by simp
  have "fid \<notin> fst ` set fs" using Cons.prems(1) by (simp add: f)
  then have f1: "\<forall>fid' \<in> fst ` set fs. extents s1 fid' = None"
    using Cons.prems(4) insert_index_extents_other [OF s1] by (metis image_eqI insertCI list.set(2) list.simps(9) set_map)
  show ?case
    using Cons.IH [OF _ c1 e1 f1 rest] Cons.prems(1) by simp
qed

lemma empty_index_exact: "idx_exact (SpatialIndex c)"
  by (simp add: idx_exact_def SpatialIndex_def bucket_empty)

lemma cand_set_sym:
  assumes "idx_exact s" "b \<in> cand_set s a"
  shows "a \<in> cand_set s b"
proof -
  obtain ea k where ea: "extents s a = Some ea" "k \<in> set (keys_of (cell_size s) ea)"
    "b \<in> set (bucket (grid s) k)" "b \<noteq> a"
    using assms(2) unfolding cand_set_def by (auto split: option.splits)
  obtain eb where eb: "extents s b = Some eb" "k \<in> set (keys_of (cell_size s) eb)"
    using assms(1) ea(3) unfolding idx_exact_def by blast
  have "a \<in> set (bucket (grid s) k)"
    using assms(1) ea(1,2) unfolding idx_exact_def by blast
  then show ?thesis
    unfolding cand_set_def using eb ea(4) by auto
qed

lemma cand_set_known:
  assumes ex: "idx_exact s" and keys: "\<forall>fid. extents s fid \<noteq> None \<longrightarrow> fid \<in> fst ` set fs"
    and b: "b \<in> cand_set s a"
  shows "b \<in> set (map fst fs)" "b \<noteq> a"
proof -
  obtain k where "b \<in> set (bucket (grid s) k)" "b \<noteq> a"
    using b unfolding cand_set_def by (auto split: option.splits)
  then show "b \<noteq> a" and "b \<in> set (map fst fs)"
    using ex keys unfolding idx_exact_def by auto
qed

text \<open>
  C1, for a negative cell size. Both unit squares are inserted (the index stores their
  extents), the two extents intersect, and neither id is a candidate of the other:
  with \<open>cell_size = -1\<close> the column range of the extent \<open>(0, 0, 1, 1)\<close> is
  \<open>range(0, 0)\<close>, so \<open>insert\<close> puts the id into no cell.
\<close>

theorem query_candidates_negative_cell_size:
  "for_each (\<lambda>(fid, geom) s. insert_index s fid geom)
     [(1, Some unit_square), (2, Some unit_square)] (SpatialIndex (- 1))
     = Inr negative_cell_index
   \<and> extents negative_cell_index 1 = Some (0, 0, 1, 1)
   \<and> extents negative_cell_index 2 = Some (0, 0, 1, 1)
   \<and> valid_extent (0, 0, 1, 1)
   \<and> extents_intersect (0, 0, 1, 1) (0, 0, 1, 1)
   \<and> query_candidates remdups negative_cell_index 1 = Inr []
   \<and> query_candidates remdups negative_cell_index 2 = Inr []"
  by (simp add: negative_cell_index_def SpatialIndex_def insert_index_def example_geometry_facts
      example_cell_keys query_candidates_def valid_extent_def extents_intersect_def)

text \<open>
  C1, amended. In an index of positive cell size, built from the empty index by any
  sequence of \<open>insert\<close> calls, take two different ids that the index holds an extent
  for. If the two extents are rectangles (\<open>xmin \<le> xmax\<close>, \<open>ymin \<le> ymax\<close>) and intersect,
  then \<open>query_candidates\<close> of either id returns a list that contains the other id.
\<close>

theorem query_candidates_sound:
  assumes "0 < c"
    and "for_each (\<lambda>(fid, geom) s. insert_index s fid geom) inserted (SpatialIndex c) = Inr s"
    and "extents s a = Some extent_a" and "extents s b = Some extent_b" and "a \<noteq> b"
    and "valid_extent extent_a" and "valid_extent extent_b"
    and "extents_intersect extent_a extent_b"
    and "\<And>xs. set (set_iter xs) = set xs"
  shows "(\<exists>cands. query_candidates set_iter s a = Inr cands \<and> b \<in> set cands)
       \<and> (\<exists>cands. query_candidates set_iter s b = Inr cands \<and> a \<in> set cands)"
proof -
  have build: "for_each insert_feature inserted (SpatialIndex c) = Inr s"
    using assms(2) by (simp add: insert_feature_def)
  have sym: "extents_intersect extent_b extent_a"
    using assms(8) by (auto simp: extents_intersect_def split: prod.splits)
  show ?thesis
    using candidates_sound [OF assms(1) build assms(3,4,5,6,7,8) assms(9)]
      candidates_sound [OF assms(1) build assms(4,3) assms(5) [symmetric] assms(7,6) sym assms(9)]
    by blast
qed

theorem query_candidates_sound_witness:
  "(0 :: real) < 20
   \<and> for_each (\<lambda>(fid, geom) s. insert_index s fid geom)
        [(1, Some unit_square), (2, Some shifted_square)] (SpatialIndex 20)
        = Inr two_square_index
   \<and> extents two_square_index 1 = Some (0, 0, 1, 1)
   \<and> extents two_square_index 2 = Some (1/2, 1/2, 3/2, 3/2)
   \<and> valid_extent (0, 0, 1, 1) \<and> valid_extent (1/2, 1/2, 3/2, 3/2)
   \<and> extents_intersect (0, 0, 1, 1) (1/2, 1/2, 3/2, 3/2)
   \<and> query_candidates remdups two_square_index 1 = Inr [2]
   \<and> query_candidates remdups two_square_index 2 = Inr [1]"
proof -
  have c: "(0 :: real) < 20" by simp
  have build: "for_each (\<lambda>(fid, geom) s. insert_index s fid geom)
                 [(1, Some unit_square), (2, Some shifted_square)] (SpatialIndex 20)
               = Inr two_square_index"
    by (simp add: two_square_index_def SpatialIndex_def insert_index_def example_geometry_facts
        example_cell_keys grid_append_def)
  have a: "extents two_square_index 1 = Some (0, 0, 1, 1)"
    and b: "extents two_square_index 2 = Some (1/2, 1/2, 3/2, 3/2)"
    by (simp_all add: two_square_index_def)
  have ne: "(1 :: int) \<noteq> 2" by simp
  have va: "valid_extent (0, 0, 1, 1)" and vb: "valid_extent (1/2, 1/2, 3/2, 3/2)"
    by (simp_all add: valid_extent_def)
  have x: "extents_intersect (0, 0, 1, 1) (1/2, 1/2, 3/2, 3/2)"
    by (simp add: extents_intersect_def)
  have q: "query_candidates remdups two_square_index 1 = Inr [2]"
    "query_candidates remdups two_square_index 2 = Inr [1]"
    by (simp_all add: query_candidates_def two_square_index_def example_cell_keys)
  show ?thesis
    using c build a b va vb x q
      query_candidates_sound [OF c build a b ne va vb x, of remdups]
    by simp
qed

subsection \<open>Pairwise overlaps: what is emitted\<close>

lemma pair_step_cases:
  assumes "pair_step intersect fs exts moa dt pt fa ga aa ea fb (P, out) = Inr (P', out')"
  shows "(P' = P \<and> out' = out \<and> (min fa fb, max fa fb) \<in> P) \<or>
         (P' = insert (min fa fb, max fa fb) P \<and> (min fa fb, max fa fb) \<notin> P \<and>
          (out' = out \<or> (\<exists>r. out' = out @ [r] \<and> emitted intersect fs exts moa dt pt fa ga aa ea fb r)))"
  using assms unfolding pair_step_def Let_def emitted_def
  by (simp split: if_splits option.splits add: not_le not_less) force+

lemma pair_step_returns:
  assumes "map_of fs fb \<noteq> None"
  shows "\<exists>st'. pair_step intersect fs exts moa dt pt fa ga aa ea fb st = Inr st'"
  using assms unfolding pair_step_def Let_def
  by (cases st) (auto split: if_splits option.splits)

lemma pair_step_inv:
  assumes step: "pair_step intersect fs exts moa dt pt fa ga (get_geometry_area ga) ea fb st = Inr st'"
    and inv: "ov_inv intersect fs exts moa dt pt st"
    and ctx: "map_of fs fa = Some ga" "validate_polygon_geometry ga" "0 < get_geometry_area ga"
      "map_of exts fa = Some ea"
  shows "ov_inv intersect fs exts moa dt pt st'"
proof -
  obtain P out where st: "st = (P, out)" by (metis surj_pair)
  obtain P' out' where st': "st' = (P', out')" by (metis surj_pair)
  from pair_step_cases [OF step [unfolded st st']]
  consider "P' = P" "out' = out"
    | "P' = insert (min fa fb, max fa fb) P" "out' = out"
    | r where "P' = insert (min fa fb, max fa fb) P" "(min fa fb, max fa fb) \<notin> P"
        "out' = out @ [r]" "emitted intersect fs exts moa dt pt fa ga (get_geometry_area ga) ea fb r"
    by blast
  then show ?thesis
  proof cases
    case 1
    then show ?thesis using inv by (simp add: st st')
  next
    case 2
    then show ?thesis using inv by (auto simp: st st' ov_inv_def)
  next
    case 3
    have ab: "fid_a r = fa" "fid_b r = fb" using 3(4) by (simp_all add: emitted_def)
    have key: "pair_key r = (min fa fb, max fa fb)" by (simp add: pair_key_def ab)
    have src: "sourced intersect fs exts moa dt pt r"
      unfolding sourced_def ab using ctx 3(4) by blast
    have "pair_key r \<notin> pair_key ` set out"
      using inv 3(2) key by (auto simp: st ov_inv_def)
    then show ?thesis
      using inv src key by (auto simp: st st' 3 ov_inv_def)
  qed
qed

lemma feature_step_inv:
  assumes step: "feature_step set_iter intersect fs exts sindex moa dt pt fa st = Inr st'"
    and inv: "ov_inv intersect fs exts moa dt pt st"
  shows "ov_inv intersect fs exts moa dt pt st'"
proof (cases "st' = st")
  case True
  then show ?thesis using inv by simp
next
  case False
  then obtain ga ea cands where
    ctx: "map_of fs fa = Some ga" "validate_polygon_geometry ga" "0 < get_geometry_area ga"
      "map_of exts fa = Some ea"
    and loop: "for_each (pair_step intersect fs exts moa dt pt fa ga (get_geometry_area ga) ea)
                 cands st = Inr st'"
    using step unfolding feature_step_def Let_def
    by (auto split: option.splits if_splits sum.splits simp: not_le)
  show ?thesis
    by (rule for_each_invariant [OF loop, of "ov_inv intersect fs exts moa dt pt"])
      (use inv ctx in \<open>auto intro: pair_step_inv\<close>)
qed

lemma overlap_cell_size_pos: "0 < overlap_cell_size fs"
  by (auto simp: overlap_cell_size_def split: prod.splits)

lemma find_pairwise_overlaps_shape:
  "find_pairwise_overlaps set_iter intersect fs moa dt pt =
     (if fs = [] \<or> fst (collect_extents fs) = [] then Inr []
      else case for_each insert_feature fs (SpatialIndex (overlap_cell_size fs)) of
             Inl e \<Rightarrow> Inl e
           | Inr sindex \<Rightarrow>
               (case for_each (feature_step set_iter intersect fs (fst (collect_extents fs))
                                 sindex moa dt pt) (map fst fs) ({}, []) of
                  Inl e \<Rightarrow> Inl e
                | Inr st \<Rightarrow> Inr (snd st)))"
  unfolding find_pairwise_overlaps_def overlap_cell_size_def insert_feature_def Let_def
  by (simp split: prod.splits sum.splits)

lemma find_pairwise_overlaps_inv:
  assumes "find_pairwise_overlaps set_iter intersect fs moa dt pt = Inr rs"
  shows "distinct (map pair_key rs) \<and>
         (\<forall>r \<in> set rs. sourced intersect fs (fst (collect_extents fs)) moa dt pt r)"
proof (cases "fs = [] \<or> fst (collect_extents fs) = []")
  case True
  then have "rs = []"
    using assms unfolding find_pairwise_overlaps_shape by simp
  then show ?thesis by simp
next
  case False
  then obtain sindex P where
    loop: "for_each (feature_step set_iter intersect fs (fst (collect_extents fs)) sindex moa dt pt)
             (map fst fs) ({}, []) = Inr (P, rs)"
    using assms unfolding find_pairwise_overlaps_shape
    by (auto split: sum.splits)
  have "ov_inv intersect fs (fst (collect_extents fs)) moa dt pt (P, rs)"
  proof (rule for_each_invariant [OF loop])
    show "ov_inv intersect fs (fst (collect_extents fs)) moa dt pt ({}, [])"
      by (simp add: ov_inv_def)
  qed (rule feature_step_inv)
  then show ?thesis by (simp add: ov_inv_def)
qed

lemma feature_step_returns:
  assumes c: "cell_size s \<noteq> 0" and d: "idx_dom s"
    and k: "\<forall>fid. extents s fid \<noteq> None \<longrightarrow> fid \<in> fst ` set fs"
    and iter: "\<And>xs. set (set_iter xs) = set xs"
    and fa: "fa \<in> fst ` set fs"
  shows "\<exists>st'. feature_step set_iter intersect fs exts s moa dt pt fa st = Inr st'"
proof -
  obtain ga where ga: "map_of fs fa = Some ga"
    using fa by (metis map_of_eq_None_iff not_Some_eq)
  obtain cands where q: "query_candidates set_iter s fa = Inr cands"
    and qs: "set cands = (case extents s fa of
                          None \<Rightarrow> {}
                        | Some ext \<Rightarrow>
                            (\<Union>k \<in> set (keys_of (cell_size s) ext). set (bucket (grid s) k)) - {fa})"
    using query_candidates_set [OF c iter, of fa] by blast
  have "map_of fs b \<noteq> None" if "b \<in> set cands" for b
  proof -
    have "extents s b \<noteq> None"
      using that qs d unfolding idx_dom_def by (auto split: option.splits)
    then show ?thesis using k by (simp add: map_of_eq_None_iff)
  qed
  then have "\<exists>st'. for_each (pair_step intersect fs exts moa dt pt fa ga aa ea) cands st = Inr st'"
    for aa ea
    by (intro for_each_returns pair_step_returns)
  then show ?thesis
    unfolding feature_step_def Let_def by (simp add: ga q split: option.splits)
qed

lemma find_pairwise_overlaps_returns:
  assumes iter: "\<And>xs. set (set_iter xs) = set xs"
  shows "\<exists>rs. find_pairwise_overlaps set_iter intersect fs moa dt pt = Inr rs"
proof (cases "fs = [] \<or> fst (collect_extents fs) = []")
  case True
  then show ?thesis unfolding find_pairwise_overlaps_shape by simp
next
  case False
  have c0: "cell_size (SpatialIndex (overlap_cell_size fs)) \<noteq> 0"
    using overlap_cell_size_pos [of fs] by (simp add: SpatialIndex_def)
  obtain s where s: "for_each insert_feature fs (SpatialIndex (overlap_cell_size fs)) = Inr s"
    using build_index_returns [OF c0] by blast
  have cs: "cell_size s \<noteq> 0" and d: "idx_dom s"
    using build_index_inv [OF s c0] c0 empty_index_inv by auto
  have k: "\<forall>fid. extents s fid \<noteq> None \<longrightarrow> fid \<in> fst ` set fs"
    by (rule build_index_keys [OF s]) (simp add: SpatialIndex_def)
  have "\<exists>st'. for_each (feature_step set_iter intersect fs (fst (collect_extents fs)) s moa dt pt)
                 (map fst fs) ({}, []) = Inr st'"
    by (rule for_each_returns) (use feature_step_returns [OF cs d k iter] in auto)
  then show ?thesis
    unfolding find_pairwise_overlaps_shape using False s by auto
qed

lemma unordered_pair_key:
  "{fid_a r, fid_b r} = {fid_a r', fid_b r'} \<Longrightarrow> pair_key r = pair_key r'"
  unfolding pair_key_def doubleton_eq_iff by (auto simp: min_def max_def)

lemma distinct_unordered:
  assumes "distinct (map pair_key rs)"
  shows "distinct (map (\<lambda>r. {fid_a r, fid_b r}) rs)"
proof -
  have "distinct rs" "inj_on pair_key (set rs)"
    using assms by (simp_all add: distinct_map)
  moreover have "inj_on (\<lambda>r. {fid_a r, fid_b r}) (set rs)"
    using \<open>inj_on pair_key (set rs)\<close> unordered_pair_key unfolding inj_on_def by blast
  ultimately show ?thesis by (simp add: distinct_map)
qed

lemma intersection_area:
  assumes "get_intersection_geometry intersect ga gb d = Some g"
  shows "0 < get_geometry_area (Some g)"
    and "(\<forall>a b d g. intersect a b d = Some g \<longrightarrow> area g \<le> area a \<and> area g \<le> area b) \<Longrightarrow>
         get_geometry_area (Some g) \<le> get_geometry_area ga \<and>
         get_geometry_area (Some g) \<le> get_geometry_area gb"
proof -
  obtain a b where ab: "ga = Some a" "gb = Some b" "\<not> is_geometry_null ga" "\<not> is_geometry_null gb"
    and i: "intersect a b d = Some g" and n: "\<not> is_geometry_null (Some g)"
    and p: "0 < get_geometry_area (Some g)"
    using assms unfolding get_intersection_geometry_def
    by (auto split: option.splits if_splits simp: not_le)
  show "0 < get_geometry_area (Some g)" by (rule p)
  assume "\<forall>a b d g. intersect a b d = Some g \<longrightarrow> area g \<le> area a \<and> area g \<le> area b"
  then have "area g \<le> area a" "area g \<le> area b" using i by blast+
  then show "get_geometry_area (Some g) \<le> get_geometry_area ga \<and>
         get_geometry_area (Some g) \<le> get_geometry_area gb"
    using ab n by (simp add: get_geometry_area_def)
qed

lemma sourced_ratio:
  assumes "sourced intersect fs exts moa dt pt r"
  shows "\<exists>geom_a geom_b.
           map_of fs (fid_a r) = Some geom_a \<and> map_of fs (fid_b r) = Some geom_b \<and>
           0 < get_geometry_area geom_a \<and> 0 < get_geometry_area geom_b \<and>
           get_intersection_geometry intersect geom_a geom_b 4 = Some (overlap_geometry r) \<and>
           overlap_area r = get_geometry_area (Some (overlap_geometry r)) \<and>
           overlap_ratio r
             = overlap_area r / min (get_geometry_area geom_a) (get_geometry_area geom_b)"
  using assms unfolding sourced_def emitted_def by (auto split: if_splits)

lemma emitted_passes:
  "emitted intersect fs exts moa dt pt fa ga aa ea fb r \<Longrightarrow> passes_checks fs exts fb"
  unfolding emitted_def passes_checks_def by auto

lemma pair_loop_order:
  assumes loop: "for_each (pair_step intersect fs exts moa dt pt a ga aa ea) cands (P0, out0)
                   = Inr st'"
    and fids: "map fst fs = p @ a # q"
    and J: "order_inv fs exts s p (P0, out0)"
    and ex: "idx_exact s"
    and keys: "\<forall>fid. extents s fid \<noteq> None \<longrightarrow> fid \<in> fst ` set fs"
    and cs: "set cands \<subseteq> cand_set s a"
  shows "P0 \<subseteq> fst st' \<and> (\<forall>b \<in> set cands. (min a b, max a b) \<in> fst st') \<and>
         (\<forall>r \<in> set (snd st'). in_order (map fst fs) r)"
proof (rule for_each_prefix_invariant [OF loop, of
      "\<lambda>seen st. P0 \<subseteq> fst st \<and> (\<forall>b \<in> set seen. (min a b, max a b) \<in> fst st) \<and>
         (\<forall>r \<in> set (snd st). in_order (map fst fs) r)" "[]" cands])
  show "P0 \<subseteq> fst (P0, out0) \<and> (\<forall>b \<in> set []. (min a b, max a b) \<in> fst (P0, out0)) \<and>
        (\<forall>r \<in> set (snd (P0, out0)). in_order (map fst fs) r)"
    using J by (simp add: order_inv_def)
  show "cands = [] @ cands" by simp
next
  fix cp b cq t t'
  assume split: "cands = cp @ b # cq"
    and I: "P0 \<subseteq> fst t \<and> (\<forall>b \<in> set cp. (min a b, max a b) \<in> fst t) \<and>
            (\<forall>r \<in> set (snd t). in_order (map fst fs) r)"
    and step: "pair_step intersect fs exts moa dt pt a ga aa ea b t = Inr t'"
  obtain P out where t: "t = (P, out)" by (metis surj_pair)
  obtain P' out' where t': "t' = (P', out')" by (metis surj_pair)
  have bc: "b \<in> cand_set s a" using cs split by auto
  from pair_step_cases [OF step [unfolded t t']]
  consider "P' = P" "out' = out" "(min a b, max a b) \<in> P"
    | "P' = insert (min a b, max a b) P" "out' = out"
    | r where "P' = insert (min a b, max a b) P" "(min a b, max a b) \<notin> P"
        "out' = out @ [r]" "emitted intersect fs exts moa dt pt a ga aa ea b r"
    by blast
  then show "P0 \<subseteq> fst t' \<and> (\<forall>b \<in> set (cp @ [b]). (min a b, max a b) \<in> fst t') \<and>
            (\<forall>r \<in> set (snd t'). in_order (map fst fs) r)"
  proof cases
    case 1
    then show ?thesis using I by (auto simp: t t')
  next
    case 2
    then show ?thesis using I by (auto simp: t t')
  next
    case 3
    have ab: "fid_a r = a" "fid_b r = b" using 3(4) by (simp_all add: emitted_def)
    have "b \<notin> set p"
    proof
      assume "b \<in> set p"
      moreover have "passes_checks fs exts b" by (rule emitted_passes [OF 3(4)])
      moreover have "a \<in> cand_set s b" by (rule cand_set_sym [OF ex bc])
      ultimately have "(min b a, max b a) \<in> P0"
        using J unfolding order_inv_def by auto
      then have "(min a b, max a b) \<in> P"
        using I by (auto simp: t min.commute max.commute)
      then show False using 3(2) by simp
    qed
    moreover have "b \<in> set (p @ a # q)" "b \<noteq> a"
      using cand_set_known [OF ex keys bc] fids by simp_all
    ultimately have "b \<in> set q" by simp
    then have "in_order (map fst fs) r"
      unfolding in_order_def ab using fids by blast
    then show ?thesis using I 3 by (auto simp: t t')
  qed
qed

lemma feature_step_order:
  assumes step: "feature_step set_iter intersect fs exts s moa dt pt a st = Inr st'"
    and fids: "map fst fs = p @ a # q"
    and J: "order_inv fs exts s p st"
    and iter: "\<And>xs. set (set_iter xs) = set xs"
    and c: "cell_size s \<noteq> 0" and ex: "idx_exact s"
    and keys: "\<forall>fid. extents s fid \<noteq> None \<longrightarrow> fid \<in> fst ` set fs"
  shows "order_inv fs exts s (p @ [a]) st'"
proof (cases "passes_checks fs exts a")
  case False
  then have "st' = st"
    using step unfolding feature_step_def Let_def passes_checks_def
    by (auto split: option.splits if_splits simp: not_le)
  then show ?thesis using J False by (auto simp: order_inv_def)
next
  case True
  then obtain ga ea where g: "map_of fs a = Some ga" "validate_polygon_geometry ga"
    "0 < get_geometry_area ga" "map_of exts a = Some ea"
    unfolding passes_checks_def by auto
  obtain cands where q: "query_candidates set_iter s a = Inr cands"
    and qs: "set cands = cand_set s a"
    using query_candidates_set [OF c iter, of a] unfolding cand_set_def by blast
  obtain P0 out0 where st: "st = (P0, out0)" by (metis surj_pair)
  have loop: "for_each (pair_step intersect fs exts moa dt pt a ga (get_geometry_area ga) ea)
                cands (P0, out0) = Inr st'"
    using step g q unfolding feature_step_def Let_def st by simp
  have r: "P0 \<subseteq> fst st' \<and> (\<forall>b \<in> set cands. (min a b, max a b) \<in> fst st') \<and>
           (\<forall>r \<in> set (snd st'). in_order (map fst fs) r)"
    by (rule pair_loop_order [OF loop fids J [unfolded st] ex keys]) (simp add: qs)
  show ?thesis
    unfolding order_inv_def using r J qs by (auto simp: st order_inv_def)
qed

lemma find_pairwise_overlaps_order:
  assumes iter: "\<And>xs. set (set_iter xs) = set xs"
    and dist: "distinct (map fst fs)"
    and res: "find_pairwise_overlaps set_iter intersect fs moa dt pt = Inr rs"
  shows "\<forall>r \<in> set rs. in_order (map fst fs) r"
proof (cases "fs = [] \<or> fst (collect_extents fs) = []")
  case True
  then have "rs = []" using res unfolding find_pairwise_overlaps_shape by simp
  then show ?thesis by simp
next
  case False
  let ?exts = "fst (collect_extents fs)"
  obtain s P where s: "for_each insert_feature fs (SpatialIndex (overlap_cell_size fs)) = Inr s"
    and loop: "for_each (feature_step set_iter intersect fs ?exts s moa dt pt)
                 (map fst fs) ({}, []) = Inr (P, rs)"
    using res False unfolding find_pairwise_overlaps_shape by (auto split: sum.splits)
  have c0: "cell_size (SpatialIndex (overlap_cell_size fs)) \<noteq> 0"
    using overlap_cell_size_pos [of fs] by (simp add: SpatialIndex_def)
  have c: "cell_size s \<noteq> 0" using build_index_inv [OF s c0] c0 by simp
  have ex: "idx_exact s"
    by (rule build_index_exact [OF dist c0 empty_index_exact _ s]) (simp add: SpatialIndex_def)
  have keys: "\<forall>fid. extents s fid \<noteq> None \<longrightarrow> fid \<in> fst ` set fs"
    by (rule build_index_keys [OF s]) (simp add: SpatialIndex_def)
  have "order_inv fs ?exts s (map fst fs) (P, rs)"
  proof (rule for_each_prefix_invariant [OF loop, of "order_inv fs ?exts s" "[]"])
    show "order_inv fs ?exts s [] ({}, [])" by (simp add: order_inv_def)
    show "map fst fs = [] @ map fst fs" by simp
  next
    fix p x q t t'
    assume "map fst fs = p @ x # q" "order_inv fs ?exts s p t"
      "feature_step set_iter intersect fs ?exts s moa dt pt x t = Inr t'"
    then show "order_inv fs ?exts s (p @ [x]) t'"
      using feature_step_order [OF _ _ _ iter c ex keys] by blast
  qed
  then show ?thesis by (simp add: order_inv_def)
qed

lemma in_order_less:
  assumes "in_order fids r" "distinct fids"
  shows "fid_a r \<noteq> fid_b r" and "sorted fids \<Longrightarrow> fid_a r < fid_b r"
proof -
  obtain p q where pq: "fids = p @ fid_a r # q" "fid_b r \<in> set q"
    using assms(1) unfolding in_order_def by blast
  show ne: "fid_a r \<noteq> fid_b r" using assms(2) pq by auto
  assume "sorted fids"
  then have "fid_a r \<le> fid_b r" using pq by (auto simp: sorted_append)
  then show "fid_a r < fid_b r" using ne by simp
qed

lemmas overlap_eval =
  find_pairwise_overlaps_def collect_extents_def SpatialIndex_def insert_index_def
  grid_append_def feature_step_def query_candidates_def pair_step_def extents_intersect_def
  classify_overlap_def Let_def example_geometry_facts example_cell_keys example_intersection

lemma two_squares_ascending:
  "find_pairwise_overlaps remdups quarter_intersect
     [(1, Some unit_square), (2, Some shifted_square)] 0 (9/10) (1/2)
   = Inr [\<lparr>fid_a = 1, fid_b = 2,
           overlap_geometry = \<lparr>gtype = Polygon, pointCount = 5, area = 1/4, glength = 2,
                                gextent = Some (1/2, 1/2, 1, 1)\<rparr>,
           overlap_area = 1/4, overlap_ratio = 1/4, overlap_type = ''SLIVER''\<rparr>]"
  by (simp add: overlap_eval)

lemma two_squares_descending:
  "find_pairwise_overlaps remdups quarter_intersect
     [(2, Some unit_square), (1, Some shifted_square)] 0 (9/10) (1/2)
   = Inr [\<lparr>fid_a = 2, fid_b = 1,
           overlap_geometry = \<lparr>gtype = Polygon, pointCount = 5, area = 1/4, glength = 2,
                                gextent = Some (1/2, 1/2, 1, 1)\<rparr>,
           overlap_area = 1/4, overlap_ratio = 1/4, overlap_type = ''SLIVER''\<rparr>]"
  by (simp add: overlap_eval)

lemma three_squares:
  "map (\<lambda>r. {fid_a r, fid_b r}) (projr (find_pairwise_overlaps remdups quarter_intersect
     [(1, Some unit_square), (2, Some shifted_square), (3, Some unit_square)] 0 (9/10) (1/2)))
   = [{1, 2}, {1, 3}, {2, 3}]"
  by (simp add: overlap_eval)

lemma pair_step_log_erase:
  "map_sum id erase_log (pair_step_log intersect fs exts moa dt pt fa ga aa ea fb t)
     = pair_step intersect fs exts moa dt pt fa ga aa ea fb (erase_log t)"
  by (cases t) (simp add: pair_step_log_def pair_step_def erase_log_def Let_def
      split: option.splits)

lemma feature_step_log_erase:
  "map_sum id erase_log (feature_step_log set_iter intersect fs exts s moa dt pt fa t)
     = feature_step set_iter intersect fs exts s moa dt pt fa (erase_log t)"
  unfolding feature_step_log_def feature_step_def Let_def
  by (simp add: for_each_erase [where erase = erase_log] pair_step_log_erase
      split: option.splits sum.splits)

lemma find_pairwise_overlaps_log_shape:
  "find_pairwise_overlaps_log set_iter intersect fs moa dt pt =
     (if fs = [] \<or> fst (collect_extents fs) = [] then Inr ([], [])
      else case for_each insert_feature fs (SpatialIndex (overlap_cell_size fs)) of
             Inl e \<Rightarrow> Inl e
           | Inr sindex \<Rightarrow>
               (case for_each (feature_step_log set_iter intersect fs (fst (collect_extents fs))
                                 sindex moa dt pt) (map fst fs) ({}, [], []) of
                  Inl e \<Rightarrow> Inl e
                | Inr st \<Rightarrow> Inr (snd st)))"
  unfolding find_pairwise_overlaps_log_def overlap_cell_size_def insert_feature_def Let_def
  by (simp split: prod.splits sum.splits)

lemma find_pairwise_overlaps_log_erase:
  "map_sum id fst (find_pairwise_overlaps_log set_iter intersect fs moa dt pt)
     = find_pairwise_overlaps set_iter intersect fs moa dt pt"
proof (cases "fs = [] \<or> fst (collect_extents fs) = []")
  case True
  then show ?thesis
    unfolding find_pairwise_overlaps_log_shape find_pairwise_overlaps_shape by auto
next
  case False
  show ?thesis
  proof (cases "for_each insert_feature fs (SpatialIndex (overlap_cell_size fs))")
    case (Inl e)
    then show ?thesis
      unfolding find_pairwise_overlaps_log_shape find_pairwise_overlaps_shape
      using False by simp
  next
    case (Inr s)
    let ?L = "for_each (feature_step_log set_iter intersect fs (fst (collect_extents fs))
                          s moa dt pt) (map fst fs) ({}, [], [])"
    let ?O = "for_each (feature_step set_iter intersect fs (fst (collect_extents fs))
                          s moa dt pt) (map fst fs) ({}, [])"
    have e: "map_sum id erase_log ?L = ?O"
      using for_each_erase [of "map fst fs" erase_log
          "feature_step_log set_iter intersect fs (fst (collect_extents fs)) s moa dt pt"
          "feature_step set_iter intersect fs (fst (collect_extents fs)) s moa dt pt"
          "({}, [], [])"]
        feature_step_log_erase
      by (simp add: erase_log_def)
    show ?thesis
    proof (cases ?L)
      case (Inl err)
      then have "?O = Inl err" using e by simp
      then show ?thesis
        unfolding find_pairwise_overlaps_log_shape find_pairwise_overlaps_shape
        using False Inr Inl by simp
    next
      case (Inr t)
      then have "?O = Inr (erase_log t)" using e by simp
      then show ?thesis
        unfolding find_pairwise_overlaps_log_shape find_pairwise_overlaps_shape
        using False \<open>for_each insert_feature fs (SpatialIndex (overlap_cell_size fs)) = Inr s\<close> Inr
        by (simp add: erase_log_def)
    qed
  qed
qed

lemma unordered_key:
  "unordered p = unordered q \<longleftrightarrow>
     (min (fst p) (snd p), max (fst p) (snd p)) = (min (fst q) (snd q), max (fst q) (snd q))"
  unfolding unordered_def doubleton_eq_iff by (auto simp: min_def max_def)

lemma pair_step_log_cases:
  assumes "pair_step_log intersect fs exts moa dt pt fa ga aa ea fb (P, out, ev) = Inr (P', out', ev')"
  shows "(P' = P \<and> out' = out \<and> ev' = ev \<and> (min fa fb, max fa fb) \<in> P) \<or>
         (P' = insert (min fa fb, max fa fb) P \<and> (min fa fb, max fa fb) \<notin> P \<and>
          ev' = ev @ [(fa, fb)] \<and>
          (out' = out \<or> (\<exists>r. out' = out @ [r] \<and> fid_a r = fa \<and> fid_b r = fb)))"
  using assms unfolding pair_step_log_def Let_def
  by (simp split: if_splits option.splits add: not_le not_less) force+

lemma pair_step_log_inv:
  assumes "pair_step_log intersect fs exts moa dt pt fa ga aa ea fb st = Inr st'" "log_inv st"
  shows "log_inv st'"
proof -
  obtain P out ev where st: "st = (P, out, ev)" by (metis surj_pair)
  obtain P' out' ev' where st': "st' = (P', out', ev')" by (metis surj_pair)
  from pair_step_log_cases [OF assms(1) [unfolded st st']]
  consider "P' = P" "out' = out" "ev' = ev"
    | "P' = insert (min fa fb, max fa fb) P" "(min fa fb, max fa fb) \<notin> P"
      "ev' = ev @ [(fa, fb)]" "out' = out"
    | r where "P' = insert (min fa fb, max fa fb) P" "(min fa fb, max fa fb) \<notin> P"
      "ev' = ev @ [(fa, fb)]" "out' = out @ [r]" "fid_a r = fa" "fid_b r = fb"
    by blast
  then show ?thesis
  proof cases
    case 1
    then show ?thesis using assms(2) by (simp add: st st')
  next
    case 2
    have "unordered (fa, fb) \<notin> unordered ` set ev"
    proof
      assume "unordered (fa, fb) \<in> unordered ` set ev"
      then obtain p where p: "p \<in> set ev" "unordered (fa, fb) = unordered p" by blast
      then have "(min fa fb, max fa fb) \<in> P"
        using assms(2) unfolding st log_inv_def unordered_key by auto
      then show False using 2(2) by simp
    qed
    then show ?thesis using assms(2) 2 by (auto simp: st st' log_inv_def)
  next
    case 3
    have "unordered (fa, fb) \<notin> unordered ` set ev"
    proof
      assume "unordered (fa, fb) \<in> unordered ` set ev"
      then obtain p where p: "p \<in> set ev" "unordered (fa, fb) = unordered p" by blast
      then have "(min fa fb, max fa fb) \<in> P"
        using assms(2) unfolding st log_inv_def unordered_key by auto
      then show False using 3(2) by simp
    qed
    then show ?thesis using assms(2) 3 by (auto simp: st st' log_inv_def)
  qed
qed

lemma feature_step_log_inv:
  assumes step: "feature_step_log set_iter intersect fs exts sindex moa dt pt fa st = Inr st'"
    and inv: "log_inv st"
  shows "log_inv st'"
proof (cases "st' = st")
  case True
  then show ?thesis using inv by simp
next
  case False
  then obtain ga aa ea cands where
    loop: "for_each (pair_step_log intersect fs exts moa dt pt fa ga aa ea) cands st = Inr st'"
    using step unfolding feature_step_log_def Let_def
    by (auto split: option.splits if_splits sum.splits)
  show ?thesis
    by (rule for_each_invariant [OF loop, of log_inv]) (use inv in \<open>auto intro: pair_step_log_inv\<close>)
qed

lemma find_pairwise_overlaps_log_inv:
  assumes "find_pairwise_overlaps_log set_iter intersect fs moa dt pt = Inr (rs, evaluated)"
  shows "distinct (map unordered evaluated) \<and>
         (\<forall>r \<in> set rs. (fid_a r, fid_b r) \<in> set evaluated)"
proof (cases "fs = [] \<or> fst (collect_extents fs) = []")
  case True
  then have "rs = []" "evaluated = []"
    using assms unfolding find_pairwise_overlaps_log_shape by simp_all
  then show ?thesis by simp
next
  case False
  then obtain sindex P where
    loop: "for_each (feature_step_log set_iter intersect fs (fst (collect_extents fs)) sindex
                       moa dt pt) (map fst fs) ({}, [], []) = Inr (P, rs, evaluated)"
    using assms unfolding find_pairwise_overlaps_log_shape
    by (auto split: sum.splits)
  have "log_inv (P, rs, evaluated)"
  proof (rule for_each_invariant [OF loop])
    show "log_inv ({}, [], [])" by (simp add: log_inv_def)
  qed (rule feature_step_log_inv)
  then show ?thesis by (simp add: log_inv_def)
qed

lemma find_pairwise_overlaps_log_returns:
  assumes "find_pairwise_overlaps set_iter intersect fs moa dt pt = Inr rs"
  shows "\<exists>evaluated. find_pairwise_overlaps_log set_iter intersect fs moa dt pt
                        = Inr (rs, evaluated)"
  using assms find_pairwise_overlaps_log_erase [of set_iter intersect fs moa dt pt]
  by (cases "find_pairwise_overlaps_log set_iter intersect fs moa dt pt") auto

lemma three_squares_log:
  "snd (projr (find_pairwise_overlaps_log remdups quarter_intersect
     [(1, Some unit_square), (2, Some shifted_square), (3, Some unit_square)] 0 (9/10) (1/2)))
   = [(1, 2), (1, 3), (2, 3)]"
  by (simp add: find_pairwise_overlaps_log_def feature_step_log_def pair_step_log_def
      overlap_eval)

text \<open>
  C2. For every mapping of features, \<open>find_pairwise_overlaps\<close> runs to its end and no two
  of the records it yields have the same unordered pair of ids \<open>{fid_a, fid_b}\<close>. In the
  whole run each unordered pair is evaluated at most once, however many grid cells hold
  both features: the log of the iterations that go past the test of \<open>processed_pairs\<close>
  holds no unordered pair twice, and every record yielded was logged.
\<close>

theorem find_pairwise_overlaps_unique_pairs:
  assumes "\<And>xs. set (set_iter xs) = set xs"
  shows "\<exists>rs evaluated.
           find_pairwise_overlaps_log set_iter intersect features min_overlap_area
             duplicate_threshold partial_threshold = Inr (rs, evaluated)
         \<and> find_pairwise_overlaps set_iter intersect features min_overlap_area
             duplicate_threshold partial_threshold = Inr rs
         \<and> distinct (map (\<lambda>(a, b). {a, b}) evaluated)
         \<and> (\<forall>r \<in> set rs. (fid_a r, fid_b r) \<in> set evaluated)
         \<and> distinct (map (\<lambda>r. {fid_a r, fid_b r}) rs)"
proof -
  obtain rs where rs: "find_pairwise_overlaps set_iter intersect features min_overlap_area
                         duplicate_threshold partial_threshold = Inr rs"
    using find_pairwise_overlaps_returns [OF assms] by blast
  obtain evaluated where ev: "find_pairwise_overlaps_log set_iter intersect features
                         min_overlap_area duplicate_threshold partial_threshold
                         = Inr (rs, evaluated)"
    using find_pairwise_overlaps_log_returns [OF rs] by blast
  have u: "unordered = (\<lambda>(a, b). {a, b})"
    by (auto simp: unordered_def fun_eq_iff)
  have "distinct (map (\<lambda>(a, b). {a, b}) evaluated)"
    and "\<forall>r \<in> set rs. (fid_a r, fid_b r) \<in> set evaluated"
    using find_pairwise_overlaps_log_inv [OF ev] unfolding u by blast+
  moreover have "distinct (map (\<lambda>r. {fid_a r, fid_b r}) rs)"
    using find_pairwise_overlaps_inv [OF rs] distinct_unordered by blast
  ultimately show ?thesis using rs ev by blast
qed

theorem find_pairwise_overlaps_unique_pairs_witness:
  "snd (projr (find_pairwise_overlaps_log remdups quarter_intersect
     [(1, Some unit_square), (2, Some shifted_square), (3, Some unit_square)] 0 (9/10) (1/2)))
     = [(1, 2), (1, 3), (2, 3)]
   \<and> map (\<lambda>r. {fid_a r, fid_b r})
     (projr (find_pairwise_overlaps remdups quarter_intersect
        [(1, Some unit_square), (2, Some shifted_square), (3, Some unit_square)] 0 (9/10) (1/2)))
     = [{1, 2}, {1, 3}, {2, 3}]
   \<and> distinct (map (\<lambda>(a, b). {a, b})
       (snd (projr (find_pairwise_overlaps_log remdups quarter_intersect
          [(1, Some unit_square), (2, Some shifted_square), (3, Some unit_square)]
          0 (9/10) (1/2)))))
   \<and> distinct (map (\<lambda>r. {fid_a r, fid_b r})
       (projr (find_pairwise_overlaps remdups quarter_intersect
          [(1, Some unit_square), (2, Some shifted_square), (3, Some unit_square)] 0 (9/10) (1/2))))"
proof -
  have h: "set (remdups xs) = set xs" for xs :: "int list" by simp
  from find_pairwise_overlaps_unique_pairs [of remdups quarter_intersect
      "[(1, Some unit_square), (2, Some shifted_square), (3, Some unit_square)]" 0 "9/10" "1/2",
      OF h]
  have "distinct (map (\<lambda>(a, b). {a, b})
       (snd (projr (find_pairwise_overlaps_log remdups quarter_intersect
          [(1, Some unit_square), (2, Some shifted_square), (3, Some unit_square)]
          0 (9/10) (1/2)))))
   \<and> distinct (map (\<lambda>r. {fid_a r, fid_b r})
       (projr (find_pairwise_overlaps remdups quarter_intersect
          [(1, Some unit_square), (2, Some shifted_square), (3, Some unit_square)] 0 (9/10) (1/2))))"
    by auto
  then show ?thesis using three_squares three_squares_log by simp
qed

text \<open>
  C3, for a mapping whose ids are not ascending. For the features \<open>{2: unit square,
  1: shifted square}\<close> the outer loop reaches id 2 first and yields the record with
  \<open>fid_a = 2\<close> and \<open>fid_b = 1\<close>: the record takes the ids of the loops, not the sorted
  pair key.
\<close>

theorem find_pairwise_overlaps_descending_ids:
  "find_pairwise_overlaps remdups quarter_intersect
     [(2, Some unit_square), (1, Some shifted_square)] 0 (9/10) (1/2)
   = Inr [\<lparr>fid_a = 2, fid_b = 1,
           overlap_geometry = \<lparr>gtype = Polygon, pointCount = 5, area = 1/4, glength = 2,
                                gextent = Some (1/2, 1/2, 1, 1)\<rparr>,
           overlap_area = 1/4, overlap_ratio = 1/4, overlap_type = ''SLIVER''\<rparr>]
   \<and> \<not> fid_a \<lparr>fid_a = 2, fid_b = 1,
           overlap_geometry = \<lparr>gtype = Polygon, pointCount = 5, area = 1/4, glength = 2,
                                gextent = Some (1/2, 1/2, 1, 1)\<rparr>,
           overlap_area = 1/4, overlap_ratio = 1/4, overlap_type = ''SLIVER''\<rparr>
       < fid_b \<lparr>fid_a = 2, fid_b = 1,
           overlap_geometry = \<lparr>gtype = Polygon, pointCount = 5, area = 1/4, glength = 2,
                                gextent = Some (1/2, 1/2, 1, 1)\<rparr>,
           overlap_area = 1/4, overlap_ratio = 1/4, overlap_type = ''SLIVER''\<rparr>"
  using two_squares_descending by simp

text \<open>
  C3, amended. For every mapping of features (a dict: its ids are pairwise different),
  \<open>find_pairwise_overlaps\<close> runs to its end, and in every record it yields the two ids
  differ and \<open>fid_a\<close> is the one that comes first in the iteration order of the mapping.
  Hence \<open>fid_a < fid_b\<close> in every record when the mapping iterates in ascending order of
  id.
\<close>

theorem find_pairwise_overlaps_id_order:
  assumes "\<And>xs. set (set_iter xs) = set xs"
    and "distinct (map fst features)"
  shows "\<exists>rs. find_pairwise_overlaps set_iter intersect features min_overlap_area
                 duplicate_threshold partial_threshold = Inr rs
              \<and> (\<forall>r \<in> set rs. fid_a r \<noteq> fid_b r \<and> in_order (map fst features) r)
              \<and> (sorted (map fst features) \<longrightarrow> (\<forall>r \<in> set rs. fid_a r < fid_b r))"
proof -
  obtain rs where rs: "find_pairwise_overlaps set_iter intersect features min_overlap_area
                         duplicate_threshold partial_threshold = Inr rs"
    using find_pairwise_overlaps_returns [OF assms(1)] by blast
  have "\<forall>r \<in> set rs. in_order (map fst features) r"
    by (rule find_pairwise_overlaps_order [OF assms rs])
  then show ?thesis
    using rs in_order_less [OF _ assms(2)] by blast
qed

theorem find_pairwise_overlaps_id_order_witness:
  "distinct (map fst [(1 :: int, Some unit_square), (2, Some shifted_square)])
   \<and> sorted (map fst [(1 :: int, Some unit_square), (2, Some shifted_square)])
   \<and> map (\<lambda>r. (fid_a r, fid_b r))
       (projr (find_pairwise_overlaps remdups quarter_intersect
          [(1, Some unit_square), (2, Some shifted_square)] 0 (9/10) (1/2))) = [(1, 2)]
   \<and> list_all (\<lambda>r. fid_a r < fid_b r)
       (projr (find_pairwise_overlaps remdups quarter_intersect
          [(1, Some unit_square), (2, Some shifted_square)] 0 (9/10) (1/2)))"
proof -
  have h: "set (remdups xs) = set xs" for xs :: "int list" by simp
  have d: "distinct (map fst [(1 :: int, Some unit_square), (2, Some shifted_square)])"
    and s: "sorted (map fst [(1 :: int, Some unit_square), (2, Some shifted_square)])"
    by simp_all
  from find_pairwise_overlaps_id_order [of remdups
      "[(1, Some unit_square), (2, Some shifted_square)]" quarter_intersect 0 "9/10" "1/2",
      OF h d] s
  have "list_all (\<lambda>r. fid_a r < fid_b r)
       (projr (find_pairwise_overlaps remdups quarter_intersect
          [(1, Some unit_square), (2, Some shifted_square)] 0 (9/10) (1/2)))"
    by (auto simp: list_all_iff)
  then show ?thesis using d s two_squares_ascending by simp
qed

text \<open>
  C5. For every mapping of features, \<open>find_pairwise_overlaps\<close> runs to its end, and every
  record it yields comes from two features of the mapping, both of area \<open>> 0\<close>, whose
  intersection is the record's geometry; its \<open>overlap_area\<close> is the area of that
  geometry and its \<open>overlap_ratio\<close> is \<open>overlap_area / min(area_a, area_b)\<close>. If the
  provider's intersection never has more area than either operand, every record has
  \<open>0 \<le> overlap_ratio \<le> 1\<close>.
\<close>

theorem overlap_ratio_bound:
  assumes "\<And>xs. set (set_iter xs) = set xs"
  shows "\<exists>rs. find_pairwise_overlaps set_iter intersect features min_overlap_area
                 duplicate_threshold partial_threshold = Inr rs
           \<and> (\<forall>r \<in> set rs. \<exists>geom_a geom_b.
                 map_of features (fid_a r) = Some geom_a \<and>
                 map_of features (fid_b r) = Some geom_b \<and>
                 0 < get_geometry_area geom_a \<and> 0 < get_geometry_area geom_b \<and>
                 get_intersection_geometry intersect geom_a geom_b 4
                   = Some (overlap_geometry r) \<and>
                 overlap_area r = get_geometry_area (Some (overlap_geometry r)) \<and>
                 overlap_ratio r
                   = overlap_area r / min (get_geometry_area geom_a) (get_geometry_area geom_b))
           \<and> ((\<forall>a b d g. intersect a b d = Some g \<longrightarrow> area g \<le> area a \<and> area g \<le> area b)
                \<longrightarrow> (\<forall>r \<in> set rs. 0 \<le> overlap_ratio r \<and> overlap_ratio r \<le> 1))"
proof -
  obtain rs where rs: "find_pairwise_overlaps set_iter intersect features min_overlap_area
                         duplicate_threshold partial_threshold = Inr rs"
    using find_pairwise_overlaps_returns [OF assms] by blast
  have src: "\<forall>r \<in> set rs. sourced intersect features (fst (collect_extents features))
                min_overlap_area duplicate_threshold partial_threshold r"
    using find_pairwise_overlaps_inv [OF rs] by blast
  have one: "\<forall>r \<in> set rs. \<exists>geom_a geom_b.
                 map_of features (fid_a r) = Some geom_a \<and>
                 map_of features (fid_b r) = Some geom_b \<and>
                 0 < get_geometry_area geom_a \<and> 0 < get_geometry_area geom_b \<and>
                 get_intersection_geometry intersect geom_a geom_b 4
                   = Some (overlap_geometry r) \<and>
                 overlap_area r = get_geometry_area (Some (overlap_geometry r)) \<and>
                 overlap_ratio r
                   = overlap_area r / min (get_geometry_area geom_a) (get_geometry_area geom_b)"
    using src sourced_ratio by blast
  have two: "0 \<le> overlap_ratio r \<and> overlap_ratio r \<le> 1"
    if p: "\<forall>a b d g. intersect a b d = Some g \<longrightarrow> area g \<le> area a \<and> area g \<le> area b"
      and r: "r \<in> set rs" for r
  proof -
    obtain ga gb where g: "0 < get_geometry_area ga" "0 < get_geometry_area gb"
      "get_intersection_geometry intersect ga gb 4 = Some (overlap_geometry r)"
      "overlap_area r = get_geometry_area (Some (overlap_geometry r))"
      "overlap_ratio r = overlap_area r / min (get_geometry_area ga) (get_geometry_area gb)"
      using one r by blast
    have "0 < overlap_area r" "overlap_area r \<le> min (get_geometry_area ga) (get_geometry_area gb)"
      using intersection_area [OF g(3)] p g(4) by auto
    then show ?thesis using g(1,2,5) by simp
  qed
  show ?thesis using rs one two by blast
qed

theorem overlap_ratio_bound_witness:
  "find_pairwise_overlaps remdups quarter_intersect
     [(1, Some unit_square), (2, Some shifted_square)] 0 (9/10) (1/2)
   = Inr [\<lparr>fid_a = 1, fid_b = 2,
           overlap_geometry = \<lparr>gtype = Polygon, pointCount = 5, area = 1/4, glength = 2,
                                gextent = Some (1/2, 1/2, 1, 1)\<rparr>,
           overlap_area = 1/4, overlap_ratio = 1/4, overlap_type = ''SLIVER''\<rparr>]
   \<and> (1/4 :: real) = (1/4) / min (get_geometry_area (Some unit_square))
                                  (get_geometry_area (Some shifted_square))
   \<and> list_all (\<lambda>r. 0 \<le> overlap_ratio r \<and> overlap_ratio r \<le> 1)
       (projr (find_pairwise_overlaps remdups quarter_intersect
          [(1, Some unit_square), (2, Some shifted_square)] 0 (9/10) (1/2)))"
proof -
  have h: "set (remdups xs) = set xs" for xs :: "int list" by simp
  have p: "\<forall>a b d g. quarter_intersect a b d = Some g \<longrightarrow> area g \<le> area a \<and> area g \<le> area b"
    by (auto simp: quarter_intersect_def)
  from overlap_ratio_bound [of remdups quarter_intersect
      "[(1, Some unit_square), (2, Some shifted_square)]" 0 "9/10" "1/2", OF h] p
  have "list_all (\<lambda>r. 0 \<le> overlap_ratio r \<and> overlap_ratio r \<le> 1)
       (projr (find_pairwise_overlaps remdups quarter_intersect
          [(1, Some unit_square), (2, Some shifted_square)] 0 (9/10) (1/2)))"
    by (auto simp: list_all_iff)
  then show ?thesis using two_squares_ascending by (simp add: example_geometry_facts)
qed

end
